theory Spec2Isabelle
  imports Main "HOL-Library.Word"
begin

section \<open>JavaScript strings\<close>

text \<open>
  A JavaScript string is a sequence of 16-bit code units (UTF-16, surrogates paired or
  not). A literal of the source, which is ASCII throughout the repository, is written
  \<open>ascii ''...''\<close>.
\<close>

type_synonym code_unit = "16 word"

type_synonym js_string = "code_unit list"

definition ascii :: "string \<Rightarrow> js_string" where
  "ascii s = map (\<lambda>c. of_nat (of_char c)) s"

definition is_high :: "code_unit \<Rightarrow> bool" where
  "is_high u = (55296 \<le> unat u \<and> unat u \<le> 56319)"

definition is_low :: "code_unit \<Rightarrow> bool" where
  "is_low u = (56320 \<le> unat u \<and> unat u \<le> 57343)"

text \<open>
  The conversion to \<^verbatim>\<open>USVString\<close> that \<^verbatim>\<open>URLSearchParams\<close> applies to every name and value
  it is given: a high surrogate followed by a low one is one scalar value, any other
  surrogate becomes U+FFFD (65533).
\<close>

definition lone_unit :: "code_unit \<Rightarrow> nat" where
  "lone_unit u = (if is_high u \<or> is_low u then 65533 else unat u)"

fun scalar_values :: "js_string \<Rightarrow> nat list" where
  "scalar_values [] = []"
| "scalar_values [u] = [lone_unit u]"
| "scalar_values (u # v # rest) =
     (if is_high u \<and> is_low v
      then (65536 + (unat u - 55296) * 1024 + (unat v - 56320)) # scalar_values rest
      else lone_unit u # scalar_values (v # rest))"

definition utf16_units :: "nat \<Rightarrow> js_string" where
  "utf16_units c =
     (if c < 65536 then [of_nat c]
      else [of_nat (55296 + (c - 65536) div 1024), of_nat (56320 + (c - 65536) mod 1024)])"

definition utf16_encode :: "nat list \<Rightarrow> js_string" where
  "utf16_encode cs = concat (map utf16_units cs)"

definition USVString :: "js_string \<Rightarrow> js_string" where
  "USVString s = utf16_encode (scalar_values s)"

text \<open>The scalar values: everything up to U+10FFFF that is not a surrogate.\<close>

definition is_scalar :: "nat \<Rightarrow> bool" where
  "is_scalar c = (c < 55296 \<or> (57344 \<le> c \<and> c < 1114112))"

subsection \<open>UTF-8\<close>

text \<open>Bytes are \<open>char\<close>s; a text of bytes is a \<open>string\<close>.\<close>

definition utf8_bytes :: "nat \<Rightarrow> string" where
  "utf8_bytes c =
     (if c < 128 then [char_of c]
      else if c < 2048 then [char_of (192 + c div 64), char_of (128 + c mod 64)]
      else if c < 65536
        then [char_of (224 + c div 4096), char_of (128 + c div 64 mod 64), char_of (128 + c mod 64)]
      else [char_of (240 + c div 262144), char_of (128 + c div 4096 mod 64),
            char_of (128 + c div 64 mod 64), char_of (128 + c mod 64)])"

definition utf8_encode :: "js_string \<Rightarrow> string" where
  "utf8_encode s = concat (map utf8_bytes (scalar_values s))"

text \<open>
  The UTF-8 decoder of the Encoding standard, errors replaced by U+FFFD. Its state is the
  code point so far, the number of bytes still needed, and the bounds of the next byte.
  \<open>utf8_lead\<close> is what a byte does when no byte is needed. A byte out of bounds is an error
  and is then read again as a first byte.
\<close>

datatype utf8_lead = Lead_ascii nat | Lead_start nat nat nat nat | Lead_error

definition utf8_lead :: "nat \<Rightarrow> utf8_lead" where
  "utf8_lead n =
     (if n \<le> 127 then Lead_ascii n
      else if 194 \<le> n \<and> n \<le> 223 then Lead_start (n mod 32) 1 128 191
      else if 224 \<le> n \<and> n \<le> 239
        then Lead_start (n mod 16) 2 (if n = 224 then 160 else 128) (if n = 237 then 159 else 191)
      else if 240 \<le> n \<and> n \<le> 244
        then Lead_start (n mod 8) 3 (if n = 240 then 144 else 128) (if n = 244 then 143 else 191)
      else Lead_error)"

fun utf8_decode_from :: "nat \<Rightarrow> nat \<Rightarrow> nat \<Rightarrow> nat \<Rightarrow> string \<Rightarrow> nat list" where
  "utf8_decode_from cp needed lower upper [] = (if needed = 0 then [] else [65533])"
| "utf8_decode_from cp needed lower upper (b # bs) =
     (let n = (of_char b :: nat);
          fresh = (case utf8_lead n of
                     Lead_ascii c \<Rightarrow> c # utf8_decode_from 0 0 128 191 bs
                   | Lead_start cp' k lo hi \<Rightarrow> utf8_decode_from cp' k lo hi bs
                   | Lead_error \<Rightarrow> 65533 # utf8_decode_from 0 0 128 191 bs)
      in if needed = 0 then fresh
         else if n < lower \<or> upper < n then 65533 # fresh
         else if needed = 1 then (cp * 64 + n mod 64) # utf8_decode_from 0 0 128 191 bs
         else utf8_decode_from (cp * 64 + n mod 64) (needed - 1) 128 191 bs)"

declare utf8_decode_from.simps [simp del]

definition utf8_decode :: "string \<Rightarrow> js_string" where
  "utf8_decode bs = utf16_encode (utf8_decode_from 0 0 128 191 bs)"

definition is_ascii :: "string \<Rightarrow> bool" where
  "is_ascii t = list_all (\<lambda>c. (of_char c :: nat) < 128) t"

section \<open>JavaScript numbers and \<^verbatim>\<open>String(value)\<close>\<close>

text \<open>
  A number is NaN, an infinity with its sign, or a finite value given by its sign and its
  decimal digits: \<open>Decimal neg s e\<close> is \<open>s\<close> times ten to the \<open>e\<close>, negated when \<open>neg\<close>. Every
  finite double has such a form (the digits \<^verbatim>\<open>Number::toString\<close> prints are the shortest that
  read back as the same double); zero is \<open>s = 0\<close>.
\<close>

datatype js_number = NaN | Infinity bool | Decimal bool nat int

definition digit_char :: "nat \<Rightarrow> char" where
  "digit_char n = ''0123456789ABCDEF'' ! n"

fun String_nat :: "nat \<Rightarrow> string" where
  "String_nat n =
     (if n < 10 then [digit_char n] else String_nat (n div 10) @ [digit_char (n mod 10)])"

declare String_nat.simps [simp del]

text \<open>The digits without trailing zeros, the exponent raised by one for each.\<close>

fun strip_zeros :: "nat \<Rightarrow> int \<Rightarrow> nat \<times> int" where
  "strip_zeros s e =
     (if 0 < s \<and> s mod 10 = 0 then strip_zeros (s div 10) (e + 1) else (s, e))"

declare strip_zeros.simps [simp del]

text \<open>
  \<^verbatim>\<open>Number::toString\<close> for a positive finite number with the \<open>k\<close> digits \<open>ds\<close> and the point
  after \<open>n\<close> digits: plain digits up to 21 places, a leading \<^verbatim>\<open>0.\<close> down to six zeros, the
  exponent form otherwise.
\<close>

definition format_decimal :: "string \<Rightarrow> int \<Rightarrow> string" where
  "format_decimal ds n =
     (let k = int (length ds);
          ex = (if n - 1 < 0 then ''-'' else ''+'') @ String_nat (nat \<bar>n - 1\<bar>)
      in if k \<le> n \<and> n \<le> 21 then ds @ replicate (nat (n - k)) (CHR ''0'')
         else if 0 < n \<and> n \<le> 21 then take (nat n) ds @ ''.'' @ drop (nat n) ds
         else if - 6 < n \<and> n \<le> 0 then ''0.'' @ replicate (nat (- n)) (CHR ''0'') @ ds
         else if k = 1 then ds @ ''e'' @ ex
         else take 1 ds @ ''.'' @ drop 1 ds @ ''e'' @ ex)"

fun String_number :: "js_number \<Rightarrow> string" where
  "String_number NaN = ''NaN''"
| "String_number (Infinity neg) = (if neg then ''-Infinity'' else ''Infinity'')"
| "String_number (Decimal neg s e) =
     (if s = 0 then ''0''
      else (if neg then ''-'' else []) @
           (let ds = String_nat (fst (strip_zeros s e))
            in format_decimal ds (snd (strip_zeros s e) + int (length ds))))"

declare String_number.simps [simp del]

section \<open>The query-string builder (src/services/utils.ts)\<close>

datatype array_item = ItemStr js_string | ItemNum js_number

datatype param_value =
    Undefined
  | Null
  | Str js_string
  | Num js_number
  | Bool bool
  | Arr "array_item list"

text \<open>
  \<^verbatim>\<open>Object.entries(params)\<close>: the entries of the record in iteration order. A record
  holds every key once.
\<close>

type_synonym params = "(js_string \<times> param_value) list"

text \<open>The list of name-value pairs held by a \<^verbatim>\<open>URLSearchParams\<close> object.\<close>

type_synonym search_params = "(js_string \<times> js_string) list"

fun String_item :: "array_item \<Rightarrow> js_string" where
  "String_item (ItemStr s) = s"
| "String_item (ItemNum n) = ascii (String_number n)"

fun join_with :: "'a list \<Rightarrow> 'a list list \<Rightarrow> 'a list" where
  "join_with sep [] = []"
| "join_with sep [x] = x"
| "join_with sep (x # y # ys) = x @ sep @ join_with sep (y # ys)"

fun String_value :: "param_value \<Rightarrow> js_string" where
  "String_value Undefined = ascii ''undefined''"
| "String_value Null = ascii ''null''"
| "String_value (Str s) = s"
| "String_value (Num n) = ascii (String_number n)"
| "String_value (Bool b) = (if b then ascii ''true'' else ascii ''false'')"
| "String_value (Arr items) = join_with (ascii '','') (map String_item items)"

subsection \<open>\<^verbatim>\<open>URLSearchParams\<close>: append and toString\<close>

text \<open>
  \<^verbatim>\<open>append\<close> converts name and value to \<^verbatim>\<open>USVString\<close>. \<^verbatim>\<open>toString()\<close> is the
  application/x-www-form-urlencoded serialiser of the URL standard: names and values are
  encoded in UTF-8; of their bytes the ASCII letters and digits and the four bytes
  \<^verbatim>\<open>* - . _\<close> are kept, a space becomes \<^verbatim>\<open>+\<close>, and every other byte becomes
  \<^verbatim>\<open>%\<close> and two upper-case hexadecimal digits; each pair is written
  \<^verbatim>\<open>name=value\<close> and the pairs are joined by \<^verbatim>\<open>&\<close>.
\<close>

definition append_param :: "search_params \<Rightarrow> js_string \<Rightarrow> js_string \<Rightarrow> search_params" where
  "append_param sp name val = sp @ [(USVString name, USVString val)]"

definition form_safe :: "char \<Rightarrow> bool" where
  "form_safe c =
     (let n = (of_char c :: nat)
      in (48 \<le> n \<and> n \<le> 57) \<or> (65 \<le> n \<and> n \<le> 90) \<or> (97 \<le> n \<and> n \<le> 122)
         \<or> c = CHR ''*'' \<or> c = CHR ''-'' \<or> c = CHR ''.'' \<or> c = CHR ''_'')"

definition percent_byte :: "char \<Rightarrow> string" where
  "percent_byte c =
     [CHR ''%'', digit_char ((of_char c :: nat) div 16), digit_char ((of_char c :: nat) mod 16)]"

definition encode_byte :: "char \<Rightarrow> string" where
  "encode_byte c =
     (if c = CHR '' '' then ''+'' else if form_safe c then [c] else percent_byte c)"

definition form_encode :: "string \<Rightarrow> string" where
  "form_encode s = concat (map encode_byte s)"

definition serialize_pair :: "js_string \<times> js_string \<Rightarrow> string" where
  "serialize_pair p = form_encode (utf8_encode (fst p)) @ ''='' @ form_encode (utf8_encode (snd p))"

definition toString :: "search_params \<Rightarrow> js_string" where
  "toString sp = ascii (join_with ''&'' (map serialize_pair sp))"

subsection \<open>\<^verbatim>\<open>buildUrlWithParams\<close>\<close>

fun append_items :: "js_string \<Rightarrow> array_item list \<Rightarrow> search_params \<Rightarrow> search_params" where
  "append_items key [] sp = sp"
| "append_items key (item # items) sp =
     append_items key items (append_param sp (key @ ascii ''[]'') (String_item item))"

fun is_array :: "param_value \<Rightarrow> bool" where
  "is_array (Arr items) = True"
| "is_array v = False"

fun array_items :: "param_value \<Rightarrow> array_item list" where
  "array_items (Arr items) = items"
| "array_items v = []"

text \<open>The body of the loop over the entries, and the loop.\<close>

definition visit_entry :: "js_string \<times> param_value \<Rightarrow> search_params \<Rightarrow> search_params" where
  "visit_entry e sp =
     (let key = fst e; v = snd e
      in if v = Undefined \<or> v = Null then sp
         else if is_array v then append_items key (array_items v) sp
         else append_param sp key (String_value v))"

fun visit_entries :: "params \<Rightarrow> search_params \<Rightarrow> search_params" where
  "visit_entries [] sp = sp"
| "visit_entries (e # es) sp = visit_entries es (visit_entry e sp)"

text \<open>The pairs one entry adds to an empty \<^verbatim>\<open>URLSearchParams\<close>.\<close>

definition entry_pairs :: "js_string \<times> param_value \<Rightarrow> search_params" where
  "entry_pairs e = visit_entry e []"

definition searchParams :: "params \<Rightarrow> search_params" where
  "searchParams ps = visit_entries ps []"

definition queryString :: "params \<Rightarrow> js_string" where
  "queryString ps = toString (searchParams ps)"

definition buildUrlWithParams :: "js_string \<Rightarrow> params \<Rightarrow> js_string" where
  "buildUrlWithParams url ps =
     (let q = queryString ps in if q = [] then url else url @ ascii ''?'' @ q)"

subsection \<open>Reading a query string back\<close>

text \<open>
  The application/x-www-form-urlencoded parser of the URL standard, which is what
  \<^verbatim>\<open>new URLSearchParams(text)\<close> runs on the UTF-8 bytes of its argument: split at \<^verbatim>\<open>&\<close>,
  drop empty pieces, split each piece at its first \<^verbatim>\<open>=\<close>, turn \<^verbatim>\<open>+\<close> into a space,
  percent-decode name and value and decode them as UTF-8. It is not part of the
  repository; it is the reader against which the output of \<open>buildUrlWithParams\<close> is judged.
\<close>

fun split_on :: "char \<Rightarrow> string \<Rightarrow> string list" where
  "split_on d [] = [[]]"
| "split_on d (c # cs) =
     (if c = d then [] # split_on d cs
      else (case split_on d cs of [] \<Rightarrow> [[c]] | w # ws \<Rightarrow> (c # w) # ws))"

definition is_hex :: "char \<Rightarrow> bool" where
  "is_hex c =
     (let n = (of_char c :: nat)
      in (48 \<le> n \<and> n \<le> 57) \<or> (65 \<le> n \<and> n \<le> 70) \<or> (97 \<le> n \<and> n \<le> 102))"

definition hex_val :: "char \<Rightarrow> nat" where
  "hex_val c =
     (let n = (of_char c :: nat)
      in if n \<le> 57 then n - 48 else if n \<le> 70 then n - 55 else n - 87)"

fun percent_decode :: "string \<Rightarrow> string" where
  "percent_decode (c # h # l # rest) =
     (if c = CHR ''%'' \<and> is_hex h \<and> is_hex l
      then char_of (16 * hex_val h + hex_val l) # percent_decode rest
      else c # percent_decode (h # l # rest))"
| "percent_decode cs = cs"

definition plus_to_space :: "char \<Rightarrow> char" where
  "plus_to_space c = (if c = CHR ''+'' then CHR '' '' else c)"

definition form_decode :: "string \<Rightarrow> string" where
  "form_decode s = percent_decode (map plus_to_space s)"

definition parse_pair :: "string \<Rightarrow> js_string \<times> js_string" where
  "parse_pair piece =
     (utf8_decode (form_decode (takeWhile (\<lambda>c. c \<noteq> CHR ''='') piece)),
      utf8_decode (form_decode (drop 1 (dropWhile (\<lambda>c. c \<noteq> CHR ''='') piece))))"

definition form_parse :: "js_string \<Rightarrow> search_params" where
  "form_parse txt =
     map parse_pair (filter (\<lambda>piece. piece \<noteq> []) (split_on (CHR ''&'') (utf8_encode txt)))"



section \<open>The HTTP client (src/services/api-client.ts)\<close>

text \<open>Process-wide configuration, the object \<^verbatim>\<open>env\<close>.\<close>

record env =
  VITE_API_HOST :: js_string
  VITE_WORKSPACE_ID :: js_string
  VITE_API_TOKEN :: js_string

definition API_VERSION :: js_string where
  "API_VERSION = ascii ''/api/v1''"

text \<open>
  \<^verbatim>\<open>AxiosRequestConfig\<close>, as far as this layer touches it: the headers, and a timeout
  standing for the options that pass through untouched.
\<close>

record axios_config =
  headers :: "js_string \<rightharpoonup> js_string"
  timeout :: "nat option"

definition empty_config :: axios_config where
  "empty_config = \<lparr>headers = Map.empty, timeout = None\<rparr>"

datatype http_verb = GET | POST | PUT | DELETE | PATCH

text \<open>
  A request as the client hands it to the network. \<open>req_body\<close> is the second
  argument of \<^verbatim>\<open>post\<close>, \<^verbatim>\<open>put\<close> and \<^verbatim>\<open>patch\<close>; \<^verbatim>\<open>get\<close> and \<^verbatim>\<open>delete\<close> have no such
  argument.
\<close>

record 'p request =
  req_baseURL :: js_string
  req_verb :: http_verb
  req_url :: js_string
  req_body :: "'p option"
  req_config :: axios_config

record 'b axios_response =
  res_status :: nat
  res_data :: 'b

text \<open>An axios error: \<open>response\<close> is present when the server answered.\<close>

record 'b axios_error =
  response :: "'b axios_response option"
  message :: js_string

text \<open>
  A settled promise: \<open>Inr\<close> fulfilled, \<open>Inl\<close> rejected. The network is a function from the
  request sent to the promise axios settles for it before the response interceptors run:
  fulfilled with the response, rejected with an error that carries the response when the
  server answered with a status axios refuses, or rejected with an error that carries no
  response when no answer came.
\<close>

type_synonym ('e, 'a) promise = "'e + 'a"

type_synonym ('p, 'b) transport = "'p request \<Rightarrow> ('b axios_error, 'b axios_response) promise"

record axios_instance =
  baseURL :: js_string

definition request_interceptor :: "env \<Rightarrow> 'p request \<Rightarrow> 'p request" where
  "request_interceptor e req =
     req\<lparr>req_config := (req_config req)\<lparr>headers :=
       (headers (req_config req))
         (ascii ''Workspace-Id'' \<mapsto> VITE_WORKSPACE_ID e,
          ascii ''Authorization'' \<mapsto> ascii ''Bearer '' @ VITE_API_TOKEN e,
          ascii ''Accept'' \<mapsto> ascii ''*/*'',
          ascii ''Content-Type'' \<mapsto> ascii ''application/json'')\<rparr>\<rparr>"

definition response_fulfilled ::
  "'b axios_response \<Rightarrow> ('b axios_error, 'b axios_response) promise" where
  "response_fulfilled res = Inr res"

definition response_rejected ::
  "'b axios_error \<Rightarrow> ('b axios_error, 'b axios_response) promise" where
  "response_rejected err = (case response err of Some res \<Rightarrow> Inr res | None \<Rightarrow> Inl err)"

definition createApiClient :: "env \<Rightarrow> axios_instance" where
  "createApiClient e = \<lparr>baseURL = VITE_API_HOST e @ API_VERSION\<rparr>"

text \<open>
  The two handlers of the response interceptor, applied to a settled promise. The rejection
  handler of the request interceptor only passes on the failure of an earlier request
  interceptor; the client registers none, so it never runs.
\<close>

definition response_interceptor ::
  "('b axios_error, 'b axios_response) promise \<Rightarrow> ('b axios_error, 'b axios_response) promise" where
  "response_interceptor settled =
     (case settled of Inr res \<Rightarrow> response_fulfilled res | Inl err \<Rightarrow> response_rejected err)"

text \<open>
  One request through the instance: the request interceptor reads the configuration
  \<open>e\<close> of the moment of the call, the network settles the request, the response
  interceptor handles the outcome. The result comes with the list of requests sent.
\<close>

definition outgoing ::
  "axios_instance \<Rightarrow> env \<Rightarrow> http_verb \<Rightarrow> js_string \<Rightarrow> 'p option \<Rightarrow> axios_config \<Rightarrow> 'p request" where
  "outgoing client e v u body cfg =
     request_interceptor e
       \<lparr>req_baseURL = baseURL client, req_verb = v, req_url = u, req_body = body,
        req_config = cfg\<rparr>"

definition instance_request ::
  "axios_instance \<Rightarrow> env \<Rightarrow> ('p, 'b) transport \<Rightarrow> http_verb \<Rightarrow> js_string \<Rightarrow> 'p option \<Rightarrow>
   axios_config \<Rightarrow> ('b axios_error, 'b axios_response) promise \<times> 'p request list" where
  "instance_request client e net v u body cfg =
     (let req = outgoing client e v u body cfg in (response_interceptor (net req), [req]))"

definition client_get where
  "client_get client e net u cfg = instance_request client e net GET u None cfg"

definition client_delete where
  "client_delete client e net u cfg = instance_request client e net DELETE u None cfg"

definition client_post where
  "client_post client e net u body cfg = instance_request client e net POST u body cfg"

definition client_put where
  "client_put client e net u body cfg = instance_request client e net PUT u body cfg"

definition client_patch where
  "client_patch client e net u body cfg = instance_request client e net PATCH u body cfg"

text \<open>\<^verbatim>\<open>FetchProps\<close>; \<open>payload\<close> is its field \<^verbatim>\<open>data\<close> and
  \<open>fetch_method\<close> its field \<^verbatim>\<open>method\<close>, the string it is at run time.\<close>

record 'p FetchProps =
  url :: js_string
  fetch_method :: js_string
  payload :: "'p option"
  options :: "axios_config option"

text \<open>\<^verbatim>\<open>.then((res) => res.data)\<close>\<close>

definition then_data ::
  "('e, 'b axios_response) promise \<times> 'r list \<Rightarrow> ('e, 'b) promise \<times> 'r list" where
  "then_data p = (case fst p of Inl err \<Rightarrow> (Inl err, snd p) | Inr res \<Rightarrow> (Inr (res_data res), snd p))"

definition apiFetch ::
  "axios_instance \<Rightarrow> env \<Rightarrow> ('p, 'b) transport \<Rightarrow> 'p FetchProps \<Rightarrow>
   ('b axios_error, 'b) promise \<times> 'p request list" where
  "apiFetch client e net props =
     (let config = (case options props of None \<Rightarrow> empty_config | Some opts \<Rightarrow> opts)
      in if fetch_method props = ascii ''post'' then then_data (client_post client e net (url props) (payload props) config)
         else if fetch_method props = ascii ''put'' then then_data (client_put client e net (url props) (payload props) config)
         else if fetch_method props = ascii ''delete'' then then_data (client_delete client e net (url props) config)
         else if fetch_method props = ascii ''patch'' then then_data (client_patch client e net (url props) (payload props) config)
         else then_data (client_get client e net (url props) config))"

text \<open>
  What the \<^verbatim>\<open>switch\<close> of \<open>apiFetch\<close> selects: the verb, the body handed to the verb, and
  the configuration \<^verbatim>\<open>{ ...options }\<close>.
\<close>

definition verb_sent :: "js_string \<Rightarrow> http_verb" where
  "verb_sent m =
     (if m = ascii ''post'' then POST else if m = ascii ''put'' then PUT else if m = ascii ''delete'' then DELETE
      else if m = ascii ''patch'' then PATCH else GET)"

definition body_sent :: "'p FetchProps \<Rightarrow> 'p option" where
  "body_sent props =
     (if fetch_method props = ascii ''post'' \<or> fetch_method props = ascii ''put'' \<or> fetch_method props = ascii ''patch''
      then payload props else None)"

definition config_sent :: "'p FetchProps \<Rightarrow> axios_config" where
  "config_sent props = (case options props of None \<Rightarrow> empty_config | Some opts \<Rightarrow> opts)"

section \<open>The response envelope\<close>

text \<open>
  Modelled from the spec: the declaration of \<^verbatim>\<open>ApiResponse\<close> and \<^verbatim>\<open>ErrorResponse\<close> in
  \<^verbatim>\<open>./common\<close>, which the endpoint modules import. The envelope has optional data, an
  optional sequence of error objects with status, title and detail, and optional
  pagination links; the envelope \<open>executeModel\<close> builds also has a status.
\<close>

record ErrorResponse =
  error_status :: nat
  title :: js_string
  detail :: js_string

record LinksType =
  first :: js_string
  last :: js_string
  next_link :: "js_string option"
  prev_link :: "js_string option"
  self :: js_string

record 'a ApiResponse =
  data :: "'a option"
  errors :: "ErrorResponse list option"
  links :: "LinksType option"
  status :: "nat option"

section \<open>Models and query execution (models.ts)\<close>

datatype field_value = FieldStr js_string | FieldNum js_number | FieldBool bool | FieldNull

type_synonym Field = "(js_string \<times> field_value) list"

record ConnectorRef =
  connector_id :: js_string
  connector_name :: js_string
  connector_icon :: js_string

record ModelAttributes =
  attr_id :: js_string
  name :: js_string
  description :: js_string
  query :: js_string
  query_type :: js_string
  primary_key :: js_string
  icon :: js_string
  created_at :: js_string
  updated_at :: js_string
  connector :: ConnectorRef

record Model =
  model_id :: js_string
  model_type :: js_string
  attributes :: ModelAttributes

record QuerySourcePayload =
  payload_query :: js_string

definition querySource ::
  "axios_instance \<Rightarrow> env \<Rightarrow> (QuerySourcePayload, Field list ApiResponse) transport \<Rightarrow>
   js_string \<Rightarrow> js_string \<Rightarrow>
   (Field list ApiResponse axios_error, Field list ApiResponse) promise
     \<times> QuerySourcePayload request list" where
  "querySource client e net connectorId q =
     apiFetch client e net
       \<lparr>url = ascii ''/connectors/'' @ connectorId @ ascii ''/query_source'',
        fetch_method = ascii ''post'', payload = Some \<lparr>payload_query = q\<rparr>,
        options = None\<rparr>"

definition getModelById ::
  "axios_instance \<Rightarrow> env \<Rightarrow> ('p, Model ApiResponse) transport \<Rightarrow> js_string \<Rightarrow>
   (Model ApiResponse axios_error, Model ApiResponse) promise \<times> 'p request list" where
  "getModelById client e net ident =
     apiFetch client e net
       \<lparr>url = ascii ''/models/'' @ ident, fetch_method = ascii ''get'', payload = None, options = None\<rparr>"

definition model_not_found :: "Field list ApiResponse" where
  "model_not_found =
     \<lparr>data = None,
      errors = Some [\<lparr>error_status = 404, title = ascii ''Not Found'', detail = ascii ''Model not found''\<rparr>],
      links = None,
      status = Some 404\<rparr>"

text \<open>
  \<open>executeModel\<close> awaits the lookup, then either returns the envelope above or awaits
  \<open>querySource\<close>. A rejected lookup rejects the whole call at the \<^verbatim>\<open>await\<close>. The one
  network is read at the body type each call declares: \<open>net_model\<close> for the lookup,
  \<open>net_fields\<close> for the query execution.
\<close>

definition executeModel ::
  "axios_instance \<Rightarrow> env \<Rightarrow> (QuerySourcePayload, Model ApiResponse) transport \<Rightarrow>
   (QuerySourcePayload, Field list ApiResponse) transport \<Rightarrow> js_string \<Rightarrow>
   (Model ApiResponse axios_error + Field list ApiResponse axios_error, Field list ApiResponse) promise
     \<times> QuerySourcePayload request list" where
  "executeModel client e net_model net_fields modelId =
     (let looked = getModelById client e net_model modelId
      in case fst looked of
           Inl err \<Rightarrow> (Inl (Inl err), snd looked)
         | Inr modelResponse \<Rightarrow>
             (case data modelResponse of
                None \<Rightarrow> (Inr model_not_found, snd looked)
              | Some m \<Rightarrow>
                  (let ran = querySource client e net_fields
                               (connector_id (connector (attributes m))) (query (attributes m))
                   in (case fst ran of Inl err \<Rightarrow> Inl (Inr err) | Inr body \<Rightarrow> Inr body,
                       snd looked @ snd ran))))"

section \<open>Dashboard reports (src/services/dashboard.ts)\<close>












section \<open>Properties of strings and their encodings\<close>

lemma unat_units: "unat (u :: code_unit) < 65536"
  using unsigned_less [of u] by simp

lemma unat_of_nat16: "n < 65536 \<Longrightarrow> unat (of_nat n :: code_unit) = n"
  by (simp add: unat_of_nat)


lemma mod_offset: "q < m \<Longrightarrow> (a * m + q) mod m = (q::nat)"
  by simp

lemma base64_digits:
  fixes c :: nat
  shows "c = (c div 64) * 64 + c mod 64"
    and "c div 64 = (c div 4096) * 64 + c div 64 mod 64"
    and "c div 4096 = (c div 262144) * 64 + c div 4096 mod 64"
proof -
  show "c = (c div 64) * 64 + c mod 64" by simp
  have "c div 4096 = c div 64 div 64" by (simp add: div_mult2_eq)
  then show "c div 64 = (c div 4096) * 64 + c div 64 mod 64" by simp
  have "c div 262144 = c div 4096 div 64" by (simp add: div_mult2_eq)
  then show "c div 4096 = (c div 262144) * 64 + c div 4096 mod 64" by simp
qed

lemma decode_lead:
  "utf8_decode_from cp 0 lo hi (b # bs) =
     (case utf8_lead (of_char b) of
        Lead_ascii c \<Rightarrow> c # utf8_decode_from 0 0 128 191 bs
      | Lead_start cp' k lo' hi' \<Rightarrow> utf8_decode_from cp' k lo' hi' bs
      | Lead_error \<Rightarrow> 65533 # utf8_decode_from 0 0 128 191 bs)"
  by (simp add: utf8_decode_from.simps Let_def)

lemma decode_last:
  assumes "lo \<le> n" "n \<le> hi" "n < 256"
  shows "utf8_decode_from cp 1 lo hi (char_of n # bs)
           = (cp * 64 + n mod 64) # utf8_decode_from 0 0 128 191 bs"
  using assms by (simp add: utf8_decode_from.simps Let_def)

lemma decode_more:
  assumes "lo \<le> n" "n \<le> hi" "n < 256" "1 < k"
  shows "utf8_decode_from cp k lo hi (char_of n # bs)
           = utf8_decode_from (cp * 64 + n mod 64) (k - 1) 128 191 bs"
  using assms by (simp add: utf8_decode_from.simps Let_def)

lemma continuation_byte:
  assumes "r < 64"
  shows "128 + r < (256::nat)" "(128::nat) \<le> 128 + r" "128 + r \<le> (191::nat)" "(128 + r) mod 64 = r"
  using assms mod_offset [of r 64 2] by simp_all

lemma decode_one:
  assumes "c < 128"
  shows "utf8_decode_from 0 0 l u (utf8_bytes c @ rest) = c # utf8_decode_from 0 0 128 191 rest"
  using assms by (simp add: utf8_bytes_def decode_lead utf8_lead_def)

lemma decode_two:
  assumes "128 \<le> c" "c < 2048"
  shows "utf8_decode_from 0 0 l u (utf8_bytes c @ rest) = c # utf8_decode_from 0 0 128 191 rest"
proof -
  define q r where "q = c div 64" and "r = c mod 64"
  have c: "c = q * 64 + r" and r: "r < 64" by (simp_all add: q_def r_def)
  from assms c r have q: "2 \<le> q" "q < 32" by linarith+
  have lead: "utf8_lead (192 + q) = Lead_start q 1 128 191"
    using q mod_offset [of q 32 6] by (simp add: utf8_lead_def)
  have "utf8_decode_from 0 0 l u (char_of (192 + q) # char_of (128 + r) # rest)
      = utf8_decode_from q 1 128 191 (char_of (128 + r) # rest)"
    using q by (simp add: decode_lead lead)
  also have "\<dots> = (q * 64 + (128 + r) mod 64) # utf8_decode_from 0 0 128 191 rest"
    using continuation_byte [OF r] by (intro decode_last) simp_all
  also have "q * 64 + (128 + r) mod 64 = c"
    using continuation_byte(4) [OF r] c by simp
  finally show ?thesis using assms by (simp add: utf8_bytes_def q_def r_def)
qed

lemma decode_three:
  assumes "2048 \<le> c" "c < 65536" "is_scalar c"
  shows "utf8_decode_from 0 0 l u (utf8_bytes c @ rest) = c # utf8_decode_from 0 0 128 191 rest"
proof -
  define a m r where "a = c div 4096" and "m = c div 64 mod 64" and "r = c mod 64"
  have m: "m < 64" and r: "r < 64" by (simp_all add: m_def r_def)
  have d: "c div 64 = a * 64 + m"
    using base64_digits(2) [of c] by (simp add: a_def m_def)
  have "c = (c div 64) * 64 + r" by (simp add: r_def)
  also have "\<dots> = (a * 64 + m) * 64 + r" by (simp only: d)
  finally have c: "c = a * 4096 + m * 64 + r" by (simp add: algebra_simps)
  from assms(2) c have a: "a < 16" by linarith
  let ?lo = "if 224 + a = 224 then 160 else (128::nat)"
  let ?hi = "if 224 + a = 237 then 159 else (191::nat)"
  have lead: "utf8_lead (224 + a) = Lead_start a 2 ?lo ?hi"
    using a mod_offset [of a 16 14] by (simp add: utf8_lead_def)
  have lo: "?lo \<le> 128 + m"
  proof (cases "a = 0")
    case True
    with assms(1) c r have "32 \<le> m" by linarith
    with True show ?thesis by simp
  next
    case False
    then show ?thesis by simp
  qed
  have hi: "128 + m \<le> ?hi"
  proof (cases "a = 13")
    case True
    from assms(3) have "c < 55296 \<or> 57344 \<le> c" by (auto simp: is_scalar_def)
    with True c m r have "m < 32" by linarith
    with True show ?thesis by simp
  next
    case False
    with m show ?thesis by simp
  qed
  have "utf8_decode_from 0 0 l u
          (char_of (224 + a) # char_of (128 + m) # char_of (128 + r) # rest)
      = utf8_decode_from a 2 ?lo ?hi (char_of (128 + m) # char_of (128 + r) # rest)"
    using a by (simp add: decode_lead lead)
  also have "\<dots> = utf8_decode_from (a * 64 + (128 + m) mod 64) (2 - 1) 128 191
                       (char_of (128 + r) # rest)"
    using lo hi continuation_byte(1) [OF m] by (intro decode_more) simp_all
  also have "\<dots> = utf8_decode_from (a * 64 + m) 1 128 191 (char_of (128 + r) # rest)"
    using continuation_byte(4) [OF m] by simp
  also have "\<dots> = ((a * 64 + m) * 64 + (128 + r) mod 64) # utf8_decode_from 0 0 128 191 rest"
    using continuation_byte [OF r] by (intro decode_last) simp_all
  also have "(a * 64 + m) * 64 + (128 + r) mod 64 = c"
    using continuation_byte(4) [OF r] c by simp
  finally show ?thesis using assms by (simp add: utf8_bytes_def a_def m_def r_def)
qed

lemma decode_four:
  assumes "65536 \<le> c" "c < 1114112"
  shows "utf8_decode_from 0 0 l u (utf8_bytes c @ rest) = c # utf8_decode_from 0 0 128 191 rest"
proof -
  define a m1 m2 r where "a = c div 262144" and "m1 = c div 4096 mod 64"
    and "m2 = c div 64 mod 64" and "r = c mod 64"
  have m1: "m1 < 64" and m2: "m2 < 64" and r: "r < 64" by (simp_all add: m1_def m2_def r_def)
  have d1: "c div 4096 = a * 64 + m1"
    using base64_digits(3) [of c] by (simp add: a_def m1_def)
  have d2: "c div 64 = (c div 4096) * 64 + m2"
    using base64_digits(2) [of c] by (simp add: m2_def)
  have "c = (c div 64) * 64 + r" by (simp add: r_def)
  also have "\<dots> = ((c div 4096) * 64 + m2) * 64 + r" by (simp only: d2)
  also have "\<dots> = ((a * 64 + m1) * 64 + m2) * 64 + r" by (simp only: d1)
  finally have c: "c = a * 262144 + m1 * 4096 + m2 * 64 + r" by (simp add: algebra_simps)
  from assms(2) c have a: "a < 5" by linarith
  let ?lo = "if 240 + a = 240 then 144 else (128::nat)"
  let ?hi = "if 240 + a = 244 then 143 else (191::nat)"
  have lead: "utf8_lead (240 + a) = Lead_start a 3 ?lo ?hi"
    using a mod_offset [of a 8 30] by (simp add: utf8_lead_def)
  have lo: "?lo \<le> 128 + m1"
  proof (cases "a = 0")
    case True
    with assms(1) c m2 r have "16 \<le> m1" by linarith
    with True show ?thesis by simp
  next
    case False
    then show ?thesis by simp
  qed
  have hi: "128 + m1 \<le> ?hi"
  proof (cases "a = 4")
    case True
    with assms(2) c have "m1 < 16" by linarith
    with True show ?thesis by simp
  next
    case False
    with m1 show ?thesis by simp
  qed
  have "utf8_decode_from 0 0 l u
          (char_of (240 + a) # char_of (128 + m1) # char_of (128 + m2) # char_of (128 + r) # rest)
      = utf8_decode_from a 3 ?lo ?hi
          (char_of (128 + m1) # char_of (128 + m2) # char_of (128 + r) # rest)"
    using a by (simp add: decode_lead lead)
  also have "\<dots> = utf8_decode_from (a * 64 + (128 + m1) mod 64) (3 - 1) 128 191
                       (char_of (128 + m2) # char_of (128 + r) # rest)"
    using lo hi continuation_byte(1) [OF m1] by (intro decode_more) simp_all
  also have "\<dots> = utf8_decode_from (a * 64 + m1) 2 128 191
                       (char_of (128 + m2) # char_of (128 + r) # rest)"
    using continuation_byte(4) [OF m1] by simp
  also have "\<dots> = utf8_decode_from ((a * 64 + m1) * 64 + (128 + m2) mod 64) (2 - 1) 128 191
                       (char_of (128 + r) # rest)"
    using continuation_byte [OF m2] by (intro decode_more) simp_all
  also have "\<dots> = utf8_decode_from ((a * 64 + m1) * 64 + m2) 1 128 191 (char_of (128 + r) # rest)"
    using continuation_byte(4) [OF m2] by simp
  also have "\<dots> = (((a * 64 + m1) * 64 + m2) * 64 + (128 + r) mod 64)
                      # utf8_decode_from 0 0 128 191 rest"
    using continuation_byte [OF r] by (intro decode_last) simp_all
  also have "((a * 64 + m1) * 64 + m2) * 64 + (128 + r) mod 64 = c"
    using continuation_byte(4) [OF r] c by simp
  finally show ?thesis using assms by (simp add: utf8_bytes_def a_def m1_def m2_def r_def)
qed

lemma decode_scalar:
  assumes "is_scalar c"
  shows "utf8_decode_from 0 0 l u (utf8_bytes c @ rest) = c # utf8_decode_from 0 0 128 191 rest"
proof -
  from assms have top: "c < 1114112" by (auto simp: is_scalar_def)
  consider "c < 128" | "128 \<le> c" "c < 2048" | "2048 \<le> c" "c < 65536" | "65536 \<le> c"
    by linarith
  then show ?thesis
  proof cases
    case 1 then show ?thesis by (rule decode_one)
  next
    case 2 then show ?thesis by (rule decode_two)
  next
    case 3 with assms show ?thesis by (intro decode_three)
  next
    case 4 with top show ?thesis by (intro decode_four)
  qed
qed

lemma decode_scalars:
  "\<forall>c\<in>set cs. is_scalar c \<Longrightarrow>
   utf8_decode_from 0 0 128 191 (concat (map utf8_bytes cs) @ rest)
     = cs @ utf8_decode_from 0 0 128 191 rest"
  by (induction cs) (simp_all add: decode_scalar)

lemma lone_unit_scalar: "is_scalar (lone_unit u)"
proof (cases "is_high u \<or> is_low u")
  case True
  then show ?thesis by (simp add: lone_unit_def is_scalar_def)
next
  case False
  then have "unat u < 55296 \<or> 57344 \<le> unat u"
    unfolding is_high_def is_low_def by linarith
  moreover have "unat u < 1114112" using unat_units [of u] by linarith
  ultimately show ?thesis using False by (simp add: lone_unit_def is_scalar_def)
qed

lemma pair_scalar:
  assumes "is_high u" "is_low v"
  shows "is_scalar (65536 + (unat u - 55296) * 1024 + (unat v - 56320))"
proof -
  from assms have "unat u - 55296 \<le> 1023" "unat v - 56320 \<le> 1023"
    unfolding is_high_def is_low_def by linarith+
  then have "(unat u - 55296) * 1024 + (unat v - 56320) \<le> 1023 * 1024 + 1023"
    by (intro add_mono mult_le_mono1)
  then show ?thesis by (simp add: is_scalar_def)
qed

lemma scalar_values_scalar: "\<forall>c\<in>set (scalar_values s). is_scalar c"
  by (induction s rule: scalar_values.induct) (simp_all add: lone_unit_scalar pair_scalar)

lemma scalar_values_plain:
  "\<not> is_high u \<Longrightarrow> scalar_values (u # rest) = lone_unit u # scalar_values rest"
  by (cases rest) simp_all

lemma scalar_values_units:
  assumes "is_scalar c"
  shows "scalar_values (utf16_units c @ rest) = c # scalar_values rest"
proof (cases "c < 65536")
  case True
  then have u: "unat (of_nat c :: code_unit) = c" by (rule unat_of_nat16)
  from assms True have plain: "\<not> is_high (of_nat c :: code_unit)" "\<not> is_low (of_nat c :: code_unit)"
    by (auto simp: is_scalar_def is_high_def is_low_def u)
  then have "lone_unit (of_nat c :: code_unit) = c" by (simp add: lone_unit_def u)
  with True plain show ?thesis by (simp add: utf16_units_def scalar_values_plain)
next
  case False
  define x where "x = c - 65536"
  from assms False have x: "x < 1048576" and c: "c = 65536 + x"
    by (auto simp: is_scalar_def x_def)
  have hq: "x div 1024 < 1024" using x by simp
  have lr: "x mod 1024 < 1024" by simp
  have hu: "unat (of_nat (55296 + x div 1024) :: code_unit) = 55296 + x div 1024"
    using hq by (intro unat_of_nat16) simp
  have lu: "unat (of_nat (56320 + x mod 1024) :: code_unit) = 56320 + x mod 1024"
    using lr by (intro unat_of_nat16) simp
  have high: "is_high (of_nat (55296 + x div 1024) :: code_unit)"
    unfolding is_high_def hu using hq by linarith
  have low: "is_low (of_nat (56320 + x mod 1024) :: code_unit)"
    unfolding is_low_def lu using lr by linarith
  have "scalar_values (of_nat (55296 + x div 1024) # of_nat (56320 + x mod 1024) # rest)
      = (65536 + (unat (of_nat (55296 + x div 1024) :: code_unit) - 55296) * 1024
           + (unat (of_nat (56320 + x mod 1024) :: code_unit) - 56320)) # scalar_values rest"
    using high low by (simp only: scalar_values.simps simp_thms if_True)
  also have "\<dots> = (65536 + (x div 1024) * 1024 + x mod 1024) # scalar_values rest"
    unfolding hu lu by simp
  also have "65536 + (x div 1024) * 1024 + x mod 1024 = c" using c by simp
  finally show ?thesis using False by (simp only: utf16_units_def x_def if_False append_Cons append_Nil)
qed

lemma scalar_values_utf16:
  "\<forall>c\<in>set cs. is_scalar c \<Longrightarrow> scalar_values (utf16_encode cs @ rest) = cs @ scalar_values rest"
  by (induction cs) (simp_all add: utf16_encode_def scalar_values_units)

lemma scalar_values_USVString: "scalar_values (USVString s) = scalar_values s"
  using scalar_values_utf16 [OF scalar_values_scalar, of s "[]"] by (simp add: USVString_def)

lemma USVString_idem: "USVString (USVString s) = USVString s"
  by (simp add: USVString_def scalar_values_USVString [unfolded USVString_def])

lemma utf8_encode_USVString: "utf8_encode (USVString s) = utf8_encode s"
  by (simp add: utf8_encode_def scalar_values_USVString)

lemma utf8_decode_encode: "utf8_decode (utf8_encode s) = USVString s"
proof -
  have "utf8_decode_from 0 0 128 191 (concat (map utf8_bytes (scalar_values s)) @ [])
          = scalar_values s @ utf8_decode_from 0 0 128 191 []"
    by (rule decode_scalars) (rule scalar_values_scalar)
  then show ?thesis by (simp add: utf8_decode_def utf8_encode_def USVString_def utf8_decode_from.simps)
qed

lemma unat_ascii_unit: "unat (of_nat (of_char c) :: code_unit) = of_char c"
proof -
  have "(of_char c :: nat) < 256" by simp
  then have "(of_char c :: nat) < 65536" by linarith
  then show ?thesis by (rule unat_of_nat16)
qed

lemma ascii_Nil: "ascii [] = []"
  by (simp add: ascii_def)

lemma ascii_Cons: "ascii (c # cs) = of_nat (of_char c) # ascii cs"
  by (simp add: ascii_def)

lemma ascii_append: "ascii (a @ b) = ascii a @ ascii b"
  by (simp add: ascii_def)

lemma length_ascii: "length (ascii a) = length a"
  by (simp add: ascii_def)

lemma ascii_empty_iff: "ascii a = [] \<longleftrightarrow> a = []"
  by (simp add: ascii_def)

lemma ascii_eq_iff [simp]: "ascii a = ascii b \<longleftrightarrow> a = b"
proof
  assume "ascii a = ascii b"
  then have "map unat (ascii a) = map unat (ascii b)" by simp
  then have "map (of_char :: char \<Rightarrow> nat) a = map of_char b"
    by (simp add: ascii_def unat_ascii_unit comp_def)
  then show "a = b" by (simp add: inj_map_eq_map [OF inj_of_char])
qed simp

lemma scalar_values_ascii: "scalar_values (ascii t @ rest) = map of_char t @ scalar_values rest"
proof (induction t)
  case Nil
  show ?case by (simp add: ascii_Nil)
next
  case (Cons c t)
  have small: "(of_char c :: nat) < 256" by simp
  have plain: "\<not> is_high (of_nat (of_char c) :: code_unit)" "\<not> is_low (of_nat (of_char c) :: code_unit)"
    unfolding is_high_def is_low_def unat_ascii_unit using small by linarith+
  then have "lone_unit (of_nat (of_char c) :: code_unit) = of_char c"
    by (simp add: lone_unit_def unat_ascii_unit)
  with plain Cons show ?case by (simp add: scalar_values_plain ascii_Cons)
qed

lemma USVString_ascii: "USVString (ascii t) = ascii t"
proof -
  have small: "(of_char c :: nat) < 65536" for c
  proof -
    have "(of_char c :: nat) < 256" by simp
    then show ?thesis by linarith
  qed
  have "utf16_encode (map of_char t) = ascii t"
    by (induction t) (simp_all add: utf16_encode_def utf16_units_def small ascii_Nil ascii_Cons)
  with scalar_values_ascii [of t "[]"] show ?thesis by (simp add: USVString_def)
qed

lemma utf8_encode_ascii: "is_ascii t \<Longrightarrow> utf8_encode (ascii t) = t"
proof -
  assume "is_ascii t"
  then have "concat (map utf8_bytes (map of_char t)) = t"
    by (induction t) (simp_all add: is_ascii_def utf8_bytes_def)
  with scalar_values_ascii [of t "[]"] show ?thesis by (simp add: utf8_encode_def)
qed

section \<open>Properties of the query-string builder\<close>

lemma append_items_eq:
  "append_items key items sp =
     sp @ map (\<lambda>item. (USVString (key @ ascii ''[]''), USVString (String_item item))) items"
  by (induction items arbitrary: sp) (simp_all add: append_param_def)

lemma visit_entry_eq: "visit_entry e sp = sp @ entry_pairs e"
  by (simp add: entry_pairs_def visit_entry_def Let_def append_items_eq append_param_def)

lemma visit_entries_eq: "visit_entries es sp = sp @ concat (map entry_pairs es)"
proof (induction es arbitrary: sp)
  case Nil
  show ?case by simp
next
  case (Cons e es)
  have "visit_entries (e # es) sp = visit_entries es (sp @ entry_pairs e)"
    by (simp add: visit_entry_eq)
  also have "\<dots> = (sp @ entry_pairs e) @ concat (map entry_pairs es)"
    by (rule Cons.IH)
  finally show ?case by simp
qed

lemma searchParams_eq: "searchParams ps = concat (map entry_pairs ps)"
  by (simp add: searchParams_def visit_entries_eq)

lemma searchParams_append: "searchParams (xs @ ys) = searchParams xs @ searchParams ys"
  by (simp add: searchParams_eq)

lemma searchParams_Cons: "searchParams (e # es) = entry_pairs e @ searchParams es"
  by (simp add: searchParams_eq)

lemma entry_pairs_absent: "v = Undefined \<or> v = Null \<Longrightarrow> entry_pairs (key, v) = []"
  by (auto simp: entry_pairs_def visit_entry_def)

lemma entry_pairs_array:
  "entry_pairs (key, Arr items) =
     map (\<lambda>item. (USVString (key @ ascii ''[]''), USVString (String_item item))) items"
  by (simp add: entry_pairs_def visit_entry_def append_items_eq)

lemma entry_pairs_scalar:
  "v \<noteq> Undefined \<Longrightarrow> v \<noteq> Null \<Longrightarrow> \<not> is_array v \<Longrightarrow>
   entry_pairs (key, v) = [(USVString key, USVString (String_value v))]"
  by (simp add: entry_pairs_def visit_entry_def append_param_def)

lemma serialize_pair_nonempty: "serialize_pair p \<noteq> []"
  by (simp add: serialize_pair_def)

lemma join_with_Cons:
  "join_with sep (x # xs) = (if xs = [] then x else x @ sep @ join_with sep xs)"
  by (cases xs) simp_all

lemma join_with_empty_iff:
  "\<forall>x\<in>set xs. x \<noteq> [] \<Longrightarrow> join_with sep xs = [] \<longleftrightarrow> xs = []"
  by (cases xs) (auto simp: join_with_Cons)

lemma toString_empty_iff: "toString sp = [] \<longleftrightarrow> sp = []"
proof -
  have "join_with ''&'' (map serialize_pair sp) = [] \<longleftrightarrow> map serialize_pair sp = []"
    by (rule join_with_empty_iff) (auto simp: serialize_pair_nonempty)
  then show ?thesis by (simp add: toString_def ascii_empty_iff)
qed

lemma buildUrl_no_pairs: "searchParams ps = [] \<Longrightarrow> buildUrlWithParams base ps = base"
  by (simp add: buildUrlWithParams_def queryString_def toString_def ascii_Nil)

lemma buildUrl_some_pairs:
  "searchParams ps \<noteq> [] \<Longrightarrow>
   buildUrlWithParams base ps = base @ ascii ''?'' @ toString (searchParams ps)"
  by (simp add: buildUrlWithParams_def queryString_def toString_empty_iff)

lemma searchParams_all_empty:
  "\<forall>e\<in>set ps. entry_pairs e = [] \<Longrightarrow> searchParams ps = []"
  by (simp add: searchParams_eq)

lemma join_with_append:
  "join_with sep (xs @ ys) =
     (if xs = [] then join_with sep ys else if ys = [] then join_with sep xs
      else join_with sep xs @ sep @ join_with sep ys)"
proof (induction xs)
  case Nil
  show ?case by simp
next
  case (Cons x xs)
  show ?case
  proof (cases "xs = []")
    case True
    then show ?thesis by (simp add: join_with_Cons)
  next
    case False
    with Cons show ?thesis by (simp add: join_with_Cons)
  qed
qed

lemma toString_append:
  "toString (xs @ ys) =
     (if xs = [] then toString ys else if ys = [] then toString xs
      else toString xs @ ascii ''&'' @ toString ys)"
  by (simp add: toString_def join_with_append ascii_def)

lemma toString_three:
  "toString (xs @ ys @ zs) =
     join_with (ascii ''&'') (filter (\<lambda>t. t \<noteq> []) [toString xs, toString ys, toString zs])"
  by (simp add: toString_append toString_empty_iff)

lemma digit_char_table:
  "list_all (\<lambda>n. is_hex (digit_char n) \<and> hex_val (digit_char n) = n
         \<and> digit_char n \<notin> {CHR ''+'', CHR ''&'', CHR ''='', CHR ''%''}
         \<and> (of_char (digit_char n) :: nat) < 128) [0..<16]"
  by code_simp

lemma digit_char_16:
  assumes "n < 16"
  shows "is_hex (digit_char n) \<and> hex_val (digit_char n) = n
         \<and> digit_char n \<notin> {CHR ''+'', CHR ''&'', CHR ''='', CHR ''%''}
         \<and> (of_char (digit_char n) :: nat) < 128"
proof -
  from assms have "n \<in> set [0..<16]" by simp
  with digit_char_table show ?thesis
    unfolding list_all_iff by blast
qed

lemma of_char_nibbles:
  "(of_char c :: nat) div 16 < 16" "(of_char c :: nat) mod 16 < 16"
proof -
  have "(of_char c :: nat) < 256" by simp
  then show "(of_char c :: nat) div 16 < 16" by presburger
  show "(of_char c :: nat) mod 16 < 16" by simp
qed

lemma char_of_nibbles: "char_of (16 * ((of_char c :: nat) div 16) + (of_char c :: nat) mod 16) = c"
  by simp

lemma form_safe_not_special:
  "form_safe c \<Longrightarrow> c \<notin> {CHR ''+'', CHR ''&'', CHR ''='', CHR ''%''}"
  by (auto simp: form_safe_def Let_def)

lemma form_safe_ascii: "form_safe c \<Longrightarrow> (of_char c :: nat) < 128"
  by (auto simp: form_safe_def Let_def)

lemma percent_decode_plain:
  "c \<noteq> CHR ''%'' \<Longrightarrow> percent_decode (c # rest) = c # percent_decode rest"
proof (cases rest)
  case Nil
  then show ?thesis by simp
next
  case (Cons h t)
  assume "c \<noteq> CHR ''%''"
  with Cons show ?thesis by (cases t) simp_all
qed

lemma percent_decode_escape:
  "is_hex h \<Longrightarrow> is_hex l \<Longrightarrow>
   percent_decode (CHR ''%'' # h # l # rest) = char_of (16 * hex_val h + hex_val l) # percent_decode rest"
  by simp

lemma form_decode_encode_byte:
  "form_decode (encode_byte c @ rest) = c # form_decode rest"
proof -
  let ?hi = "digit_char ((of_char c :: nat) div 16)"
  let ?lo = "digit_char ((of_char c :: nat) mod 16)"
  note hi = digit_char_16 [OF of_char_nibbles(1) [of c]]
  note lo = digit_char_16 [OF of_char_nibbles(2) [of c]]
  show ?thesis
  proof (cases "c = CHR '' ''")
    case True
    then show ?thesis
      by (simp add: encode_byte_def form_decode_def plus_to_space_def percent_decode_plain)
  next
    case sp: False
    show ?thesis
    proof (cases "form_safe c")
      case True
      then have "c \<noteq> CHR ''+''" "c \<noteq> CHR ''%''" using form_safe_not_special [of c] by auto
      with sp True show ?thesis
        by (simp add: encode_byte_def form_decode_def plus_to_space_def percent_decode_plain)
    next
      case False
      have pts: "plus_to_space ?hi = ?hi" "plus_to_space ?lo = ?lo"
        using hi lo by (simp_all add: plus_to_space_def)
      have "form_decode (encode_byte c @ rest) =
              percent_decode (CHR ''%'' # ?hi # ?lo # map plus_to_space rest)"
        using sp False pts
        by (simp add: encode_byte_def percent_byte_def form_decode_def plus_to_space_def)
      also have "\<dots> = char_of (16 * hex_val ?hi + hex_val ?lo) # percent_decode (map plus_to_space rest)"
        using hi lo by (intro percent_decode_escape) simp_all
      also have "char_of (16 * hex_val ?hi + hex_val ?lo) = c"
        using hi lo char_of_nibbles [of c] by simp
      finally show ?thesis by (simp add: form_decode_def)
    qed
  qed
qed

lemma form_decode_Nil: "form_decode [] = []"
  by (simp add: form_decode_def)

lemma form_decode_encode: "form_decode (form_encode s) = s"
proof -
  have "form_decode (form_encode s @ rest) = s @ form_decode rest" for rest
    by (induction s) (simp_all add: form_encode_def form_decode_encode_byte)
  from this [of "[]"] show ?thesis by (simp add: form_decode_Nil)
qed

lemma encode_byte_chars:
  assumes "x \<in> set (encode_byte c)"
  shows "x \<noteq> CHR ''&'' \<and> x \<noteq> CHR ''='' \<and> (of_char x :: nat) < 128"
proof -
  note hi = digit_char_16 [OF of_char_nibbles(1) [of c]]
  note lo = digit_char_16 [OF of_char_nibbles(2) [of c]]
  show ?thesis
  proof (cases "c = CHR '' ''")
    case True
    with assms show ?thesis by (simp add: encode_byte_def)
  next
    case sp: False
    show ?thesis
    proof (cases "form_safe c")
      case True
      with sp assms form_safe_not_special [of c] form_safe_ascii [of c]
      show ?thesis by (auto simp: encode_byte_def)
    next
      case False
      with sp assms hi lo show ?thesis by (auto simp: encode_byte_def percent_byte_def)
    qed
  qed
qed

lemma form_encode_chars:
  "x \<in> set (form_encode s) \<Longrightarrow> x \<noteq> CHR ''&'' \<and> x \<noteq> CHR ''='' \<and> (of_char x :: nat) < 128"
  by (auto simp: form_encode_def dest: encode_byte_chars)

lemma is_ascii_append: "is_ascii (a @ b) \<longleftrightarrow> is_ascii a \<and> is_ascii b"
  by (simp add: is_ascii_def)

lemma is_ascii_form_encode: "is_ascii (form_encode s)"
  using form_encode_chars [of _ s] by (auto simp: is_ascii_def list_all_iff)

lemma is_ascii_Cons: "is_ascii (c # cs) \<longleftrightarrow> (of_char c :: nat) < 128 \<and> is_ascii cs"
  by (simp add: is_ascii_def)

lemma is_ascii_serialize_pair: "is_ascii (serialize_pair p)"
  by (simp add: serialize_pair_def is_ascii_append is_ascii_Cons is_ascii_form_encode)

lemma is_ascii_join:
  "is_ascii sep \<Longrightarrow> \<forall>x\<in>set xs. is_ascii x \<Longrightarrow> is_ascii (join_with sep xs)"
  by (induction sep xs rule: join_with.induct) (simp_all add: is_ascii_append, simp add: is_ascii_def)

lemma utf8_encode_toString:
  "utf8_encode (toString sp) = join_with ''&'' (map serialize_pair sp)"
proof -
  have "is_ascii ''&''" by (simp add: is_ascii_def)
  then have "is_ascii (join_with ''&'' (map serialize_pair sp))"
    by (rule is_ascii_join) (simp add: is_ascii_serialize_pair)
  then show ?thesis by (simp add: toString_def utf8_encode_ascii)
qed

lemma parse_serialize_pair:
  "parse_pair (serialize_pair (n, v)) = (USVString n, USVString v)"
proof -
  let ?n = "form_encode (utf8_encode n)" and ?v = "form_encode (utf8_encode v)"
  have noeq: "\<forall>x\<in>set ?n. x \<noteq> CHR ''=''"
    using form_encode_chars by blast
  have tw: "takeWhile (\<lambda>c. c \<noteq> CHR ''='') (?n @ CHR ''='' # ?v) = ?n"
    using noeq by (simp add: takeWhile_append2)
  have dw: "dropWhile (\<lambda>c. c \<noteq> CHR ''='') (?n @ CHR ''='' # ?v) = CHR ''='' # ?v"
    using noeq by (simp add: dropWhile_append2)
  show ?thesis
    by (simp add: parse_pair_def serialize_pair_def tw dw form_decode_encode utf8_decode_encode)
qed

lemma serialize_pair_no_amp: "CHR ''&'' \<notin> set (serialize_pair p)"
  using form_encode_chars by (auto simp: serialize_pair_def)

lemma split_on_no_delim: "d \<notin> set s \<Longrightarrow> split_on d s = [s]"
  by (induction s) auto

lemma split_on_append:
  "d \<notin> set s \<Longrightarrow> split_on d (s @ d # rest) = s # split_on d rest"
  by (induction s) auto

lemma split_on_join:
  "xs \<noteq> [] \<Longrightarrow> \<forall>x\<in>set xs. d \<notin> set x \<Longrightarrow> split_on d (join_with [d] xs) = xs"
proof (induction xs)
  case Nil
  then show ?case by simp
next
  case (Cons x xs)
  show ?case
  proof (cases "xs = []")
    case True
    with Cons.prems show ?thesis by (simp add: split_on_no_delim)
  next
    case False
    with Cons have "split_on d (join_with [d] xs) = xs" by simp
    with False Cons.prems show ?thesis
      by (simp add: join_with_Cons split_on_append)
  qed
qed

lemma form_parse_toString:
  "form_parse (toString sp) = map (\<lambda>p. (USVString (fst p), USVString (snd p))) sp"
proof (cases "sp = []")
  case True
  then show ?thesis by (simp add: form_parse_def utf8_encode_toString)
next
  case False
  have "split_on (CHR ''&'') (join_with ''&'' (map serialize_pair sp)) = map serialize_pair sp"
    using False serialize_pair_no_amp by (intro split_on_join) auto
  moreover have "filter (\<lambda>piece. piece \<noteq> []) (map serialize_pair sp) = map serialize_pair sp"
    by (simp add: serialize_pair_nonempty)
  moreover have "map parse_pair (map serialize_pair sp)
                   = map (\<lambda>p. (USVString (fst p), USVString (snd p))) sp"
    by (induction sp) (auto simp: parse_serialize_pair)
  ultimately show ?thesis by (simp add: form_parse_def utf8_encode_toString)
qed

lemma entry_pairs_converted:
  "map (\<lambda>p. (USVString (fst p), USVString (snd p))) (entry_pairs e) = entry_pairs e"
proof -
  obtain key v where e: "e = (key, v)" by (cases e)
  show ?thesis
  proof (cases "v = Undefined \<or> v = Null")
    case True
    then show ?thesis unfolding e by (simp add: entry_pairs_absent)
  next
    case absent: False
    show ?thesis
    proof (cases v)
      case (Arr items)
      then show ?thesis unfolding e by (simp add: entry_pairs_array USVString_idem comp_def)
    qed (use absent in \<open>simp_all add: e entry_pairs_scalar USVString_idem\<close>)
  qed
qed

lemma searchParams_converted:
  "map (\<lambda>p. (USVString (fst p), USVString (snd p))) (searchParams ps) = searchParams ps"
  by (induction ps) (simp_all add: searchParams_eq entry_pairs_converted)

lemma form_parse_queryString: "form_parse (queryString ps) = searchParams ps"
  by (simp add: queryString_def form_parse_toString searchParams_converted)





lemma serialize_ascii_pair:
  "is_ascii n \<Longrightarrow> is_ascii v \<Longrightarrow>
   serialize_pair (ascii n, ascii v) = form_encode n @ ''='' @ form_encode v"
  by (simp add: serialize_pair_def utf8_encode_ascii)

lemmas ascii_eval =
  searchParams_Cons entry_pairs_absent entry_pairs_array entry_pairs_scalar USVString_ascii
  ascii_append [symmetric] serialize_ascii_pair is_ascii_def

lemma USVString_Nil: "USVString [] = []"
  by (simp add: USVString_def utf16_encode_def)

lemma form_encode_small:
  "form_encode ''false'' = ''false''" "form_encode ''0'' = ''0''" "form_encode [] = []"
  "form_encode ''true'' = ''true''" "form_encode ''1'' = ''1''" "form_encode ''2'' = ''2''"
  by code_simp+

lemma String_number_small:
  "String_number (Decimal neg 0 ex) = ''0''"
  "String_number (Decimal False 1 0) = ''1''"
  "String_number (Decimal False 2 0) = ''2''"
proof -
  show "String_number (Decimal neg 0 ex) = ''0''" by (simp add: String_number.simps)
  show "String_number (Decimal False 1 0) = ''1''" by code_simp
  show "String_number (Decimal False 2 0) = ''2''" by code_simp
qed


text \<open>
  Claim C3. When every entry of the mapping is bound to \<^verbatim>\<open>undefined\<close> or \<^verbatim>\<open>null\<close>, and so
  also when the mapping is empty, \<open>buildUrlWithParams\<close> returns the base path as it is:
  nothing is appended, no \<^verbatim>\<open>?\<close> either.
\<close>

theorem buildUrlWithParams_absent_unchanged:
  assumes "\<forall>e\<in>set ps. snd e = Undefined \<or> snd e = Null"
  shows "buildUrlWithParams base ps = base"
proof -
  have "entry_pairs e = []" if "e \<in> set ps" for e
  proof -
    from that assms have "snd e = Undefined \<or> snd e = Null" by blast
    then have "entry_pairs (fst e, snd e) = []" by (rule entry_pairs_absent)
    then show ?thesis by simp
  qed
  then have "searchParams ps = []" by (simp add: searchParams_all_empty)
  then show ?thesis by (rule buildUrl_no_pairs)
qed

text \<open>Claim C3 at a mapping of two absent entries and at the empty mapping.\<close>

theorem buildUrlWithParams_absent_unchanged_witness:
  "buildUrlWithParams (ascii ''/syncs'') [(ascii ''page'', Undefined), (ascii ''per_page'', Null)]
     = ascii ''/syncs''
   \<and> buildUrlWithParams (ascii ''/syncs'') [] = ascii ''/syncs''"
  using buildUrlWithParams_absent_unchanged
      [of "[(ascii ''page'', Undefined), (ascii ''per_page'', Null)]" "ascii ''/syncs''"]
    buildUrlWithParams_absent_unchanged [of "[]" "ascii ''/syncs''"]
  by simp

text \<open>
  Claim C5 as stated fails: a value that is the lone surrogate U+D800 is converted to
  U+FFFD when it is appended, so the query string reads back as U+FFFD and not as the
  value that was given.
\<close>

theorem buildUrlWithParams_lone_surrogate_counterexample:
  "form_parse (drop (Suc (length (ascii ''/models'')))
      (buildUrlWithParams (ascii ''/models'') [(ascii ''q'', Str [0xD800])]))
     = [(ascii ''q'', [0xFFFD])]
   \<and> [(ascii ''q'', [0xFFFD])] \<noteq> [(ascii ''q'', String_value (Str [0xD800]))]"
proof -
  have "drop (Suc (length (ascii ''/models'')))
          (buildUrlWithParams (ascii ''/models'') [(ascii ''q'', Str [0xD800])])
        = queryString [(ascii ''q'', Str [0xD800])]"
    by (simp add: buildUrlWithParams_def Let_def length_ascii ascii_def)
  moreover have "USVString [0xD800] = [0xFFFD]"
    by (simp add: USVString_def is_high_def is_low_def lone_unit_def utf16_encode_def
        utf16_units_def)
  ultimately show ?thesis
    by (simp add: form_parse_queryString searchParams_eq entry_pairs_scalar USVString_ascii)
qed

text \<open>
  Claim C5, amended. For a mapping without array values whose keys and value texts are
  left unchanged by the conversion to \<^verbatim>\<open>USVString\<close> (they hold no lone surrogate), the
  query string of the output (what follows the base path and the \<^verbatim>\<open>?\<close>) read by the form
  parser gives back, in order, the entries that are not absent, each key with \<^verbatim>\<open>String\<close>
  of its value.
\<close>

theorem buildUrlWithParams_round_trip:
  assumes "\<forall>e\<in>set ps. \<not> is_array (snd e)"
    and "\<forall>e\<in>set ps. USVString (fst e) = fst e
                    \<and> USVString (String_value (snd e)) = String_value (snd e)"
  shows "form_parse (drop (Suc (length base)) (buildUrlWithParams base ps)) =
           map (\<lambda>e. (fst e, String_value (snd e)))
             (filter (\<lambda>e. snd e \<noteq> Undefined \<and> snd e \<noteq> Null) ps)"
proof -
  have pairs: "searchParams ps =
      map (\<lambda>e. (fst e, String_value (snd e)))
        (filter (\<lambda>e. snd e \<noteq> Undefined \<and> snd e \<noteq> Null) ps)"
    using assms
  proof (induction ps)
    case Nil
    show ?case by (simp add: searchParams_eq)
  next
    case (Cons e es)
    obtain k v where e: "e = (k, v)" by (cases e)
    from Cons.prems e have scalar: "\<not> is_array v"
      and formed: "USVString k = k" "USVString (String_value v) = String_value v" by simp_all
    from Cons have IH: "searchParams es =
      map (\<lambda>e. (fst e, String_value (snd e)))
        (filter (\<lambda>e. snd e \<noteq> Undefined \<and> snd e \<noteq> Null) es)" by simp
    show ?case
    proof (cases "v = Undefined \<or> v = Null")
      case True
      then have "entry_pairs (k, v) = []" by (rule entry_pairs_absent)
      with True e IH show ?thesis by (auto simp: searchParams_Cons)
    next
      case False
      then have "entry_pairs (k, v) = [(k, String_value v)]"
        using scalar formed by (simp add: entry_pairs_scalar)
      with False e IH show ?thesis by (simp add: searchParams_Cons)
    qed
  qed
  have "drop (Suc (length base)) (buildUrlWithParams base ps) = queryString ps"
    by (simp add: buildUrlWithParams_def Let_def ascii_def)
  then have "form_parse (drop (Suc (length base)) (buildUrlWithParams base ps)) = searchParams ps"
    by (simp add: form_parse_queryString)
  with pairs show ?thesis by simp
qed

text \<open>
  Claim C5, amended, at a mapping with reserved characters, a number, an absent entry and
  a boolean, and at a value that is a surrogate pair.
\<close>

theorem buildUrlWithParams_round_trip_witness:
  "buildUrlWithParams (ascii ''/models'')
        [(ascii ''q'', Str (ascii ''a b&c=d'')), (ascii ''page'', Num (Decimal False 2 0)),
         (ascii ''gone'', Undefined), (ascii ''live'', Bool True)]
       = ascii ''/models?q=a+b%26c%3Dd&page=2&live=true''
   \<and> form_parse (ascii ''q=a+b%26c%3Dd&page=2&live=true'')
       = [(ascii ''q'', ascii ''a b&c=d''), (ascii ''page'', ascii ''2''),
          (ascii ''live'', ascii ''true'')]
   \<and> form_parse (drop (Suc (length (ascii ''/models'')))
        (buildUrlWithParams (ascii ''/models'') [(ascii ''face'', Str [0xD83D, 0xDE00])]))
       = [(ascii ''face'', [0xD83D, 0xDE00])]"
proof -
  let ?ps = "[(ascii ''q'', Str (ascii ''a b&c=d'')), (ascii ''page'', Num (Decimal False 2 0)),
              (ascii ''gone'', Undefined), (ascii ''live'', Bool True)]"
  let ?qs = "[(ascii ''face'', Str [0xD83D, 0xDE00])]"
  have pair: "USVString [0xD83D, 0xDE00] = [0xD83D, 0xDE00]"
    by (simp add: USVString_def is_high_def is_low_def lone_unit_def utf16_encode_def
        utf16_units_def)
  have h1: "\<forall>e\<in>set ?ps. \<not> is_array (snd e)" by simp
  have h2: "\<forall>e\<in>set ?ps. USVString (fst e) = fst e
                    \<and> USVString (String_value (snd e)) = String_value (snd e)"
    by (simp add: USVString_ascii)
  have g1: "\<forall>e\<in>set ?qs. \<not> is_array (snd e)" by simp
  have g2: "\<forall>e\<in>set ?qs. USVString (fst e) = fst e
                    \<and> USVString (String_value (snd e)) = String_value (snd e)"
    by (simp add: USVString_ascii pair)
  have sp: "searchParams ?ps
      = [(ascii ''q'', ascii ''a b&c=d''), (ascii ''page'', ascii ''2''), (ascii ''live'', ascii ''true'')]"
    by (simp add: ascii_eval String_number_small searchParams_eq)
  have enc: "form_encode ''q'' = ''q''" "form_encode ''a b&c=d'' = ''a+b%26c%3Dd''"
    "form_encode ''page'' = ''page''" "form_encode ''live'' = ''live''"
    by code_simp+
  have "toString (searchParams ?ps) = ascii ''q=a+b%26c%3Dd&page=2&live=true''"
    by (simp add: sp toString_def serialize_ascii_pair is_ascii_def enc form_encode_small)
  then have out: "buildUrlWithParams (ascii ''/models'') ?ps
       = ascii ''/models?q=a+b%26c%3Dd&page=2&live=true''"
    by (simp add: buildUrl_some_pairs sp ascii_append [symmetric])
  have cut: "drop (Suc (length (ascii ''/models''))) (ascii ''/models?q=a+b%26c%3Dd&page=2&live=true'')
       = ascii ''q=a+b%26c%3Dd&page=2&live=true''"
    by (simp add: ascii_def)
  from buildUrlWithParams_round_trip [OF h1 h2, of "ascii ''/models''"]
  have a: "form_parse (ascii ''q=a+b%26c%3Dd&page=2&live=true'')
       = [(ascii ''q'', ascii ''a b&c=d''), (ascii ''page'', ascii ''2''),
          (ascii ''live'', ascii ''true'')]"
    unfolding out cut by (simp add: String_number_small)
  from buildUrlWithParams_round_trip [OF g1 g2, of "ascii ''/models''"]
  have b: "form_parse (drop (Suc (length (ascii ''/models'')))
        (buildUrlWithParams (ascii ''/models'') ?qs)) = [(ascii ''face'', [0xD83D, 0xDE00])]"
    by simp
  from out a b show ?thesis by (intro conjI)
qed

text \<open>
  Claim C10. An entry bound to the empty array adds no pair, and a mapping whose values
  are all empty arrays gives back the base path unchanged.
\<close>

theorem buildUrlWithParams_empty_array:
  "searchParams (before @ (key, Arr []) # rest) = searchParams before @ searchParams rest
   \<and> ((\<forall>e\<in>set ps. snd e = Arr []) \<longrightarrow> buildUrlWithParams base ps = base)"
proof
  show "searchParams (before @ (key, Arr []) # rest) = searchParams before @ searchParams rest"
    by (simp add: searchParams_append searchParams_Cons entry_pairs_array)
  show "(\<forall>e\<in>set ps. snd e = Arr []) \<longrightarrow> buildUrlWithParams base ps = base"
  proof
    assume all: "\<forall>e\<in>set ps. snd e = Arr []"
    have "entry_pairs e = []" if "e \<in> set ps" for e
    proof -
      from that all have "entry_pairs (fst e, snd e) = []" by (simp add: entry_pairs_array)
      then show ?thesis by simp
    qed
    then have "searchParams ps = []" by (simp add: searchParams_all_empty)
    then show "buildUrlWithParams base ps = base" by (rule buildUrl_no_pairs)
  qed
qed

text \<open>Claim C10 at a mapping of two empty arrays and at a mixed mapping.\<close>

theorem buildUrlWithParams_empty_array_witness:
  "buildUrlWithParams (ascii ''/reports'') [(ascii ''connector_ids'', Arr []), (ascii ''tags'', Arr [])]
     = ascii ''/reports''
   \<and> searchParams ([(ascii ''page'', Num (Decimal False 1 0))] @ (ascii ''connector_ids'', Arr [])
         # [(ascii ''live'', Bool True)])
       = searchParams [(ascii ''page'', Num (Decimal False 1 0))] @ searchParams [(ascii ''live'', Bool True)]"
  using buildUrlWithParams_empty_array
    [of "[(ascii ''page'', Num (Decimal False 1 0))]" "ascii ''connector_ids''"
        "[(ascii ''live'', Bool True)]"
        "[(ascii ''connector_ids'', Arr []), (ascii ''tags'', Arr [])]" "ascii ''/reports''"]
  by simp

text \<open>
  Claim C9. An entry bound to \<^verbatim>\<open>false\<close>, to the number zero or to the empty string is not
  skipped: it adds the pair of its key and the text \<^verbatim>\<open>false\<close>, \<^verbatim>\<open>0\<close> or the empty text, and
  the output holds the key in its encoded form, \<^verbatim>\<open>=\<close> and that text, between the texts of
  the entries before and after it.
\<close>

theorem buildUrlWithParams_keeps_falsy:
  assumes "v = Bool False \<or> v = Num (Decimal neg 0 ex) \<or> v = Str []"
  shows "searchParams (before @ (key, v) # rest)
           = searchParams before @ (USVString key, String_value v) # searchParams rest
         \<and> String_value v
           = (if v = Bool False then ascii ''false'' else if v = Str [] then [] else ascii ''0'')
         \<and> buildUrlWithParams base (before @ (key, v) # rest)
           = base @ ascii ''?'' @ join_with (ascii ''&'')
               (filter (\<lambda>t. t \<noteq> [])
                  [queryString before,
                   ascii (form_encode (utf8_encode key)) @ ascii ''='' @ String_value v,
                   queryString rest])"
proof -
  from assms obtain t where t: "String_value v = ascii t" "form_encode t = t" "is_ascii t"
    and sv: "String_value v
           = (if v = Bool False then ascii ''false'' else if v = Str [] then [] else ascii ''0'')"
    by (auto simp: String_number_small form_encode_small is_ascii_def ascii_Nil
        intro: that [of "''false''"] that [of "''0''"] that [of "[]"])
  have conv: "USVString (String_value v) = String_value v"
    by (simp add: t USVString_ascii)
  from assms have "entry_pairs (key, v) = [(USVString key, USVString (String_value v))]"
    by (intro entry_pairs_scalar) auto
  then have sp: "searchParams (before @ (key, v) # rest)
           = searchParams before @ [(USVString key, String_value v)] @ searchParams rest"
    by (simp add: searchParams_append searchParams_Cons conv)
  have "buildUrlWithParams base (before @ (key, v) # rest)
          = base @ ascii ''?'' @ toString (searchParams before @ [(USVString key, String_value v)]
                                          @ searchParams rest)"
    using sp by (simp add: buildUrl_some_pairs)
  also have "toString (searchParams before @ [(USVString key, String_value v)] @ searchParams rest)
          = join_with (ascii ''&'') (filter (\<lambda>t. t \<noteq> [])
                  [queryString before, toString [(USVString key, String_value v)], queryString rest])"
    unfolding queryString_def by (rule toString_three)
  also have "toString [(USVString key, String_value v)]
          = ascii (form_encode (utf8_encode key)) @ ascii ''='' @ String_value v"
  proof -
    have "utf8_encode (String_value v) = t" by (simp add: t utf8_encode_ascii)
    then have "serialize_pair (USVString key, String_value v)
                 = form_encode (utf8_encode key) @ ''='' @ t"
      by (simp add: serialize_pair_def utf8_encode_USVString t(2))
    then show ?thesis
      by (simp add: toString_def ascii_append ascii_Cons ascii_Nil t(1))
  qed
  finally show ?thesis using sp sv by simp
qed

text \<open>Claim C9 at a mapping that binds one key to each of the three values.\<close>

theorem buildUrlWithParams_keeps_falsy_witness:
  "buildUrlWithParams (ascii ''/connectors'')
      [(ascii ''refresh'', Bool False), (ascii ''page'', Num (Decimal False 0 0)), (ascii ''type'', Str [])]
     = ascii ''/connectors?refresh=false&page=0&type=''"
proof -
  let ?rest = "[(ascii ''page'', Num (Decimal False 0 0)), (ascii ''type'', Str [])]"
  have h: "Bool False = Bool False \<or> Bool False = Num (Decimal False 0 0) \<or> Bool False = Str []"
    by simp
  have enc: "form_encode ''page'' = ''page''" "form_encode ''type'' = ''type''"
    "form_encode ''refresh'' = ''refresh''"
    by code_simp+
  have sp: "searchParams ?rest = [(ascii ''page'', ascii ''0''), (ascii ''type'', ascii [])]"
    by (simp add: ascii_eval String_number_small searchParams_eq ascii_Nil USVString_Nil)
  have q: "queryString ?rest = ascii ''page=0&type=''"
    by (simp add: queryString_def sp toString_def serialize_ascii_pair is_ascii_def enc
        form_encode_small)
  have n: "queryString [] = []"
    by (simp add: queryString_def searchParams_def toString_def ascii_Nil)
  have k: "ascii (form_encode (utf8_encode (ascii ''refresh''))) = ascii ''refresh''"
    by (simp add: utf8_encode_ascii is_ascii_def enc)
  from buildUrlWithParams_keeps_falsy [OF h, of "[]" "ascii ''refresh''" ?rest "ascii ''/connectors''"]
  show ?thesis by (simp add: q n k ascii_append [symmetric] ascii_empty_iff)
qed


section \<open>Properties of the HTTP client\<close>

lemma request_interceptor_fields:
  "req_baseURL (request_interceptor e req) = req_baseURL req"
  "req_verb (request_interceptor e req) = req_verb req"
  "req_url (request_interceptor e req) = req_url req"
  "req_body (request_interceptor e req) = req_body req"
  by (simp_all add: request_interceptor_def)

lemma request_interceptor_headers:
  "headers (req_config (request_interceptor e req)) (ascii ''Workspace-Id'') = Some (VITE_WORKSPACE_ID e)"
  "headers (req_config (request_interceptor e req)) (ascii ''Authorization'') = Some ((ascii ''Bearer '') @ VITE_API_TOKEN e)"
  "headers (req_config (request_interceptor e req)) (ascii ''Accept'') = Some (ascii ''*/*'')"
  "headers (req_config (request_interceptor e req)) (ascii ''Content-Type'') = Some (ascii ''application/json'')"
  by (simp_all add: request_interceptor_def)

lemma response_interceptor_cases:
  "response_interceptor (Inr res) = Inr res"
  "response err = Some res \<Longrightarrow> response_interceptor (Inl err) = Inr res"
  "response err = None \<Longrightarrow> response_interceptor (Inl err) = Inl err"
  by (simp_all add: response_interceptor_def response_fulfilled_def response_rejected_def)

lemma then_data_pair:
  "then_data (p, sent) = (case p of Inl err \<Rightarrow> Inl err | Inr res \<Rightarrow> Inr (res_data res), sent)"
  by (simp add: then_data_def split: sum.splits)

lemma apiFetch_eq:
  "apiFetch client e net props =
     (let req = outgoing client e (verb_sent (fetch_method props)) (url props) (body_sent props)
                  (config_sent props)
      in (case response_interceptor (net req) of Inl err \<Rightarrow> Inl err | Inr res \<Rightarrow> Inr (res_data res),
          [req]))"
  by (simp add: apiFetch_def Let_def verb_sent_def body_sent_def config_sent_def
      client_get_def client_post_def client_put_def client_delete_def client_patch_def
      instance_request_def then_data_pair)

text \<open>
  Claim C1. Every call of \<open>apiFetch\<close> sends one request. When the network settles it with
  a response, whether fulfilled or carried by the error of a refused status such as 404,
  \<open>apiFetch\<close> resolves with the body of that response; when the error carries no response,
  \<open>apiFetch\<close> rejects with that same error.
\<close>

theorem apiFetch_response_passthrough:
  "\<exists>req. snd (apiFetch client e net props) = [req]
     \<and> (\<forall>res. net req = Inr res \<longrightarrow> fst (apiFetch client e net props) = Inr (res_data res))
     \<and> (\<forall>err res. net req = Inl err \<and> response err = Some res \<longrightarrow>
           fst (apiFetch client e net props) = Inr (res_data res))
     \<and> (\<forall>err. net req = Inl err \<and> response err = None \<longrightarrow>
           fst (apiFetch client e net props) = Inl err)"
proof -
  let ?req = "outgoing client e (verb_sent (fetch_method props)) (url props) (body_sent props)
                (config_sent props)"
  have sent: "snd (apiFetch client e net props) = [?req]"
    by (simp add: apiFetch_eq Let_def)
  have result: "fst (apiFetch client e net props) =
      (case response_interceptor (net ?req) of Inl err \<Rightarrow> Inl err | Inr res \<Rightarrow> Inr (res_data res))"
    by (simp add: apiFetch_eq Let_def)
  have ok: "fst (apiFetch client e net props) = Inr (res_data res)" if "net ?req = Inr res" for res
    using that by (simp add: result response_interceptor_cases)
  have answered: "fst (apiFetch client e net props) = Inr (res_data res)"
    if "net ?req = Inl err" "response err = Some res" for err res
    using that by (simp add: result response_interceptor_cases)
  have silent: "fst (apiFetch client e net props) = Inl err"
    if "net ?req = Inl err" "response err = None" for err
    using that by (simp add: result response_interceptor_cases)
  from sent ok answered silent show ?thesis by blast
qed

text \<open>Claim C1 at a network that answers 404 and at a network that does not answer.\<close>

theorem apiFetch_response_passthrough_witness:
  "fst (apiFetch \<lparr>baseURL = ascii ''https://api.test/api/v1''\<rparr>
         \<lparr>VITE_API_HOST = ascii ''https://api.test'', VITE_WORKSPACE_ID = ascii ''7'', VITE_API_TOKEN = ascii ''t''\<rparr>
         (\<lambda>req. Inl \<lparr>response = Some \<lparr>res_status = 404, res_data = ascii ''missing''\<rparr>,
                      message = ascii ''Request failed with status code 404''\<rparr>)
         \<lparr>url = ascii ''/models/9'', fetch_method = ascii ''get'', payload = (None :: unit option), options = None\<rparr>)
     = Inr (ascii ''missing'')
   \<and> fst (apiFetch \<lparr>baseURL = ascii ''https://api.test/api/v1''\<rparr>
         \<lparr>VITE_API_HOST = ascii ''https://api.test'', VITE_WORKSPACE_ID = ascii ''7'', VITE_API_TOKEN = ascii ''t''\<rparr>
         (\<lambda>req. Inl \<lparr>response = (None :: js_string axios_response option), message = ascii ''Network Error''\<rparr>)
         \<lparr>url = ascii ''/models/9'', fetch_method = ascii ''get'', payload = (None :: unit option), options = None\<rparr>)
     = Inl \<lparr>response = None, message = ascii ''Network Error''\<rparr>"
proof -
  let ?client = "\<lparr>baseURL = ascii ''https://api.test/api/v1''\<rparr>"
  let ?env = "\<lparr>VITE_API_HOST = ascii ''https://api.test'', VITE_WORKSPACE_ID = ascii ''7'', VITE_API_TOKEN = ascii ''t''\<rparr>"
  let ?props = "\<lparr>url = ascii ''/models/9'', fetch_method = ascii ''get'', payload = (None :: unit option), options = None\<rparr>"
  let ?e404 = "\<lparr>response = Some \<lparr>res_status = 404, res_data = ascii ''missing''\<rparr>,
                 message = ascii ''Request failed with status code 404''\<rparr>"
  let ?down = "\<lparr>response = (None :: js_string axios_response option), message = ascii ''Network Error''\<rparr>"
  from apiFetch_response_passthrough [of ?client ?env "\<lambda>req. Inl ?e404" ?props]
  have a: "fst (apiFetch ?client ?env (\<lambda>req. Inl ?e404) ?props) = Inr (ascii ''missing'')"
    by auto
  from apiFetch_response_passthrough [of ?client ?env "\<lambda>req. Inl ?down" ?props]
  have b: "fst (apiFetch ?client ?env (\<lambda>req. Inl ?down) ?props) = Inl ?down"
    by auto
  from a b show ?thesis by simp
qed

text \<open>
  Claim C7. Whatever the url, the method, the payload and the per-call options, the one
  request \<open>apiFetch\<close> sends carries the four headers, the workspace id and the token being
  those of the configuration \<open>e\<close> read at the call; only the base URL is the one fixed when
  the client was built.
\<close>

theorem request_headers_current:
  "\<exists>req. snd (apiFetch client e net props) = [req]
     \<and> headers (req_config req) (ascii ''Workspace-Id'') = Some (VITE_WORKSPACE_ID e)
     \<and> headers (req_config req) (ascii ''Authorization'') = Some ((ascii ''Bearer '') @ VITE_API_TOKEN e)
     \<and> headers (req_config req) (ascii ''Accept'') = Some (ascii ''*/*'')
     \<and> headers (req_config req) (ascii ''Content-Type'') = Some (ascii ''application/json'')
     \<and> req_baseURL req = baseURL client"
proof -
  let ?req = "outgoing client e (verb_sent (fetch_method props)) (url props) (body_sent props)
                (config_sent props)"
  have sent: "snd (apiFetch client e net props) = [?req]"
    by (simp add: apiFetch_eq Let_def)
  have "headers (req_config ?req) (ascii ''Workspace-Id'') = Some (VITE_WORKSPACE_ID e)"
       "headers (req_config ?req) (ascii ''Authorization'') = Some ((ascii ''Bearer '') @ VITE_API_TOKEN e)"
       "headers (req_config ?req) (ascii ''Accept'') = Some (ascii ''*/*'')"
       "headers (req_config ?req) (ascii ''Content-Type'') = Some (ascii ''application/json'')"
       "req_baseURL ?req = baseURL client"
    unfolding outgoing_def
    by (simp_all only: request_interceptor_headers request_interceptor_fields) simp_all
  with sent show ?thesis by blast
qed

text \<open>
  Claim C8. With a method outside \<^verbatim>\<open>get\<close>, \<^verbatim>\<open>post\<close>, \<^verbatim>\<open>put\<close>, \<^verbatim>\<open>delete\<close>, \<^verbatim>\<open>patch\<close>,
  \<open>apiFetch\<close> does what it does for \<^verbatim>\<open>get\<close> on the same url, payload and options: the one
  request it sends is the GET to the url with the options and without the payload, and its
  result is the body of the response the network gives to that request, or the rejection
  when there is no response.
\<close>

theorem apiFetch_unknown_method:
  assumes "fetch_method props \<notin> {ascii ''get'', ascii ''post'', ascii ''put'', ascii ''delete'', ascii ''patch''}"
  shows "apiFetch client e net props = apiFetch client e net (props\<lparr>fetch_method := ascii ''get''\<rparr>)
         \<and> map req_verb (snd (apiFetch client e net props)) = [GET]
         \<and> map req_body (snd (apiFetch client e net props)) = [None]
         \<and> map req_url (snd (apiFetch client e net props)) = [url props]
         \<and> snd (apiFetch client e net props)
             = [outgoing client e GET (url props) None
                  (case options props of None \<Rightarrow> empty_config | Some opts \<Rightarrow> opts)]
         \<and> fst (apiFetch client e net props)
             = (case net (outgoing client e GET (url props) None
                            (case options props of None \<Rightarrow> empty_config | Some opts \<Rightarrow> opts))
                of Inr res \<Rightarrow> Inr (res_data res)
                 | Inl err \<Rightarrow> (case response err of Some res \<Rightarrow> Inr (res_data res)
                                                   | None \<Rightarrow> Inl err))"
proof -
  let ?req = "outgoing client e GET (url props) None
                (case options props of None \<Rightarrow> empty_config | Some opts \<Rightarrow> opts)"
  from assms have m: "fetch_method props \<noteq> ascii ''post''" "fetch_method props \<noteq> ascii ''put''"
    "fetch_method props \<noteq> ascii ''delete''" "fetch_method props \<noteq> ascii ''patch''" by auto
  have same: "apiFetch client e net props = apiFetch client e net (props\<lparr>fetch_method := ascii ''get''\<rparr>)"
    using m by (simp add: apiFetch_def)
  have v: "verb_sent (fetch_method props) = GET" using m by (simp add: verb_sent_def)
  have b: "body_sent props = None" using m by (simp add: body_sent_def)
  have sent: "snd (apiFetch client e net props) = [?req]"
    by (simp add: apiFetch_eq Let_def v b config_sent_def)
  have result: "fst (apiFetch client e net props)
      = (case net ?req of Inr res \<Rightarrow> Inr (res_data res)
         | Inl err \<Rightarrow> (case response err of Some res \<Rightarrow> Inr (res_data res) | None \<Rightarrow> Inl err))"
    by (simp add: apiFetch_eq Let_def v b config_sent_def response_interceptor_def
        response_fulfilled_def response_rejected_def split: sum.splits option.splits)
  have "map req_verb (snd (apiFetch client e net props)) = [GET]"
       "map req_body (snd (apiFetch client e net props)) = [None]"
       "map req_url (snd (apiFetch client e net props)) = [url props]"
    by (simp_all add: sent outgoing_def request_interceptor_fields)
  with same sent result show ?thesis by (intro conjI)
qed

text \<open>
  Claim C8 at the method \<^verbatim>\<open>head\<close> with a payload, on a network that answers only a GET
  without body, with the url it was asked.
\<close>

theorem apiFetch_unknown_method_witness:
  "fst (apiFetch \<lparr>baseURL = ascii ''https://api.test/api/v1''\<rparr>
     \<lparr>VITE_API_HOST = ascii ''https://api.test'', VITE_WORKSPACE_ID = ascii ''7'',
        VITE_API_TOKEN = ascii ''t''\<rparr>
     (\<lambda>req. if req_verb req = GET \<and> req_body req = None
            then Inr \<lparr>res_status = 200, res_data = req_url req\<rparr>
            else Inl \<lparr>response = None, message = ascii ''Network Error''\<rparr>)
     \<lparr>url = ascii ''/syncs'', fetch_method = ascii ''head'', payload = Some (ascii ''body''),
        options = None\<rparr>)
   = Inr (ascii ''/syncs'')"
proof -
  let ?props = "\<lparr>url = ascii ''/syncs'', fetch_method = ascii ''head'', payload = Some (ascii ''body''),
                  options = None\<rparr>"
  let ?client = "\<lparr>baseURL = ascii ''https://api.test/api/v1''\<rparr>"
  let ?env = "\<lparr>VITE_API_HOST = ascii ''https://api.test'', VITE_WORKSPACE_ID = ascii ''7'',
                VITE_API_TOKEN = ascii ''t''\<rparr>"
  let ?net = "\<lambda>req :: js_string request. if req_verb req = GET \<and> req_body req = None
            then Inr \<lparr>res_status = 200, res_data = req_url req\<rparr>
            else Inl \<lparr>response = None, message = ascii ''Network Error''\<rparr>"
  have h: "fetch_method ?props \<notin> {ascii ''get'', ascii ''post'', ascii ''put'', ascii ''delete'', ascii ''patch''}"
    by simp
  from apiFetch_unknown_method [OF h, of ?client ?env ?net]
  have "fst (apiFetch ?client ?env ?net ?props)
      = (case ?net (outgoing ?client ?env GET (url ?props) None
                      (case options ?props of None \<Rightarrow> empty_config | Some opts \<Rightarrow> opts))
         of Inr res \<Rightarrow> Inr (res_data res)
          | Inl err \<Rightarrow> (case response err of Some res \<Rightarrow> Inr (res_data res) | None \<Rightarrow> Inl err))"
    by blast
  then show ?thesis by (simp add: outgoing_def request_interceptor_fields)
qed

text \<open>
  Claim C7 at two calls through one client, the configuration changed in between: each
  request carries the values current at its own call.
\<close>

theorem request_headers_current_witness:
  "map (\<lambda>r. (headers (req_config r) (ascii ''Workspace-Id''), headers (req_config r) (ascii ''Authorization''),
              req_baseURL r))
     (snd (apiFetch
        (createApiClient \<lparr>VITE_API_HOST = ascii ''https://a.test'', VITE_WORKSPACE_ID = ascii ''1'', VITE_API_TOKEN = ascii ''old''\<rparr>)
        \<lparr>VITE_API_HOST = ascii ''https://a.test'', VITE_WORKSPACE_ID = ascii ''1'', VITE_API_TOKEN = ascii ''old''\<rparr>
        (\<lambda>req :: unit request. Inr \<lparr>res_status = 200, res_data = ascii ''ok''\<rparr>
           :: (js_string axios_error, js_string axios_response) promise)
        \<lparr>url = ascii ''/syncs'', fetch_method = ascii ''get'', payload = None, options = None\<rparr>))
     = [(Some (ascii ''1''), Some (ascii ''Bearer old''), (ascii ''https://a.test/api/v1''))]
   \<and> map (\<lambda>r. (headers (req_config r) (ascii ''Workspace-Id''), headers (req_config r) (ascii ''Authorization''),
              req_baseURL r))
     (snd (apiFetch
        (createApiClient \<lparr>VITE_API_HOST = ascii ''https://a.test'', VITE_WORKSPACE_ID = ascii ''1'', VITE_API_TOKEN = ascii ''old''\<rparr>)
        \<lparr>VITE_API_HOST = ascii ''https://b.test'', VITE_WORKSPACE_ID = ascii ''2'', VITE_API_TOKEN = ascii ''new''\<rparr>
        (\<lambda>req :: unit request. Inr \<lparr>res_status = 200, res_data = ascii ''ok''\<rparr>
           :: (js_string axios_error, js_string axios_response) promise)
        \<lparr>url = ascii ''/syncs'', fetch_method = ascii ''get'', payload = None, options = None\<rparr>))
     = [(Some (ascii ''2''), Some (ascii ''Bearer new''), (ascii ''https://a.test/api/v1''))]"
proof -
  let ?e1 = "\<lparr>VITE_API_HOST = ascii ''https://a.test'', VITE_WORKSPACE_ID = ascii ''1'', VITE_API_TOKEN = ascii ''old''\<rparr>"
  let ?e2 = "\<lparr>VITE_API_HOST = ascii ''https://b.test'', VITE_WORKSPACE_ID = ascii ''2'', VITE_API_TOKEN = ascii ''new''\<rparr>"
  let ?net = "\<lambda>req :: unit request. Inr \<lparr>res_status = 200, res_data = ascii ''ok''\<rparr>
           :: (js_string axios_error, js_string axios_response) promise"
  let ?props = "\<lparr>url = ascii ''/syncs'', fetch_method = ascii ''get'', payload = None, options = None\<rparr>"
  have base: "baseURL (createApiClient ?e1) = ascii ''https://a.test/api/v1''"
    by (simp add: createApiClient_def API_VERSION_def ascii_append [symmetric])
  from request_headers_current [of "createApiClient ?e1" ?e1 ?net ?props]
  obtain r1 where r1: "snd (apiFetch (createApiClient ?e1) ?e1 ?net ?props) = [r1]"
    "headers (req_config r1) (ascii ''Workspace-Id'') = Some (ascii ''1'')"
    "headers (req_config r1) (ascii ''Authorization'') = Some (ascii ''Bearer old'')"
    "req_baseURL r1 = ascii ''https://a.test/api/v1''"
    unfolding base by (auto simp: ascii_append [symmetric])
  from request_headers_current [of "createApiClient ?e1" ?e2 ?net ?props]
  obtain r2 where r2: "snd (apiFetch (createApiClient ?e1) ?e2 ?net ?props) = [r2]"
    "headers (req_config r2) (ascii ''Workspace-Id'') = Some (ascii ''2'')"
    "headers (req_config r2) (ascii ''Authorization'') = Some (ascii ''Bearer new'')"
    "req_baseURL r2 = ascii ''https://a.test/api/v1''"
    unfolding base by (auto simp: ascii_append [symmetric])
  show ?thesis by (simp only: r1 r2 list.map) 
qed

lemma getModelById_sent:
  "snd (getModelById client e net ident) = [outgoing client e GET ((ascii ''/models/'') @ ident) None empty_config]"
  by (simp add: getModelById_def apiFetch_eq Let_def verb_sent_def body_sent_def config_sent_def)

lemma querySource_sent:
  "snd (querySource client e net connectorId q) =
     [outgoing client e POST ((ascii ''/connectors/'') @ connectorId @ (ascii ''/query_source''))
        (Some \<lparr>payload_query = q\<rparr>) empty_config]"
  by (simp add: querySource_def apiFetch_eq Let_def verb_sent_def body_sent_def config_sent_def)

lemma outgoing_fields:
  "req_verb (outgoing client e v u body cfg) = v"
  "req_url (outgoing client e v u body cfg) = u"
  "req_body (outgoing client e v u body cfg) = body"
  "req_baseURL (outgoing client e v u body cfg) = baseURL client"
  by (simp_all add: outgoing_def request_interceptor_fields)

text \<open>
  Claim C2. When the lookup resolves with an envelope, \<open>executeModel\<close> either finds no data,
  returns the 404 envelope and has sent the lookup request alone, or finds the model and
  sends, after the lookup, one POST to the query-source path of the model's connector with
  the model's query, whose outcome it returns.
\<close>

theorem executeModel_short_circuit:
  assumes "fst (getModelById client e net_model modelId) = Inr envelope"
  shows "(data envelope = None \<longrightarrow>
            fst (executeModel client e net_model net_fields modelId)
              = Inr \<lparr>data = None,
                     errors = Some [\<lparr>error_status = 404, title = ascii ''Not Found'',
                                     detail = ascii ''Model not found''\<rparr>],
                     links = None,
                     status = Some 404\<rparr>
          \<and> map (\<lambda>r. (req_verb r, req_url r, req_body r))
                (snd (executeModel client e net_model net_fields modelId))
              = [(GET, (ascii ''/models/'') @ modelId, None)])
       \<and> (\<forall>m. data envelope = Some m \<longrightarrow>
            fst (executeModel client e net_model net_fields modelId)
              = (case fst (querySource client e net_fields
                             (connector_id (connector (attributes m))) (query (attributes m)))
                 of Inl err \<Rightarrow> Inl (Inr err) | Inr body \<Rightarrow> Inr body)
          \<and> map (\<lambda>r. (req_verb r, req_url r, req_body r))
                (snd (executeModel client e net_model net_fields modelId))
              = [(GET, (ascii ''/models/'') @ modelId, None),
                 (POST, (ascii ''/connectors/'') @ connector_id (connector (attributes m)) @ (ascii ''/query_source''),
                  Some \<lparr>payload_query = query (attributes m)\<rparr>)])"
proof (intro conjI allI impI)
  assume absent: "data envelope = None"
  from assms absent
  show "fst (executeModel client e net_model net_fields modelId)
          = Inr \<lparr>data = None,
                 errors = Some [\<lparr>error_status = 404, title = ascii ''Not Found'',
                                 detail = ascii ''Model not found''\<rparr>],
                 links = None,
                 status = Some 404\<rparr>"
    by (simp add: executeModel_def Let_def model_not_found_def)
  from assms absent
  have "snd (executeModel client e net_model net_fields modelId)
          = snd (getModelById client e net_model modelId)"
    by (simp add: executeModel_def Let_def)
  then show "map (\<lambda>r. (req_verb r, req_url r, req_body r))
                (snd (executeModel client e net_model net_fields modelId))
              = [(GET, (ascii ''/models/'') @ modelId, None)]"
    by (simp add: getModelById_sent outgoing_fields)
next
  fix m
  assume present: "data envelope = Some m"
  let ?run = "querySource client e net_fields
                (connector_id (connector (attributes m))) (query (attributes m))"
  from assms present
  show "fst (executeModel client e net_model net_fields modelId)
          = (case fst ?run of Inl err \<Rightarrow> Inl (Inr err) | Inr body \<Rightarrow> Inr body)"
    by (simp add: executeModel_def Let_def)
  from assms present
  have "snd (executeModel client e net_model net_fields modelId)
          = snd (getModelById client e net_model modelId) @ snd ?run"
    by (simp add: executeModel_def Let_def)
  then show "map (\<lambda>r. (req_verb r, req_url r, req_body r))
                (snd (executeModel client e net_model net_fields modelId))
              = [(GET, (ascii ''/models/'') @ modelId, None),
                 (POST, (ascii ''/connectors/'') @ connector_id (connector (attributes m)) @ (ascii ''/query_source''),
                  Some \<lparr>payload_query = query (attributes m)\<rparr>)]"
    by (simp add: getModelById_sent querySource_sent outgoing_fields)
qed

text \<open>Claim C2 at a lookup answered 404 with an envelope without data.\<close>

theorem executeModel_short_circuit_witness:
  "fst (executeModel \<lparr>baseURL = ascii ''https://a.test/api/v1''\<rparr>
      \<lparr>VITE_API_HOST = ascii ''https://a.test'', VITE_WORKSPACE_ID = ascii ''1'', VITE_API_TOKEN = ascii ''t''\<rparr>
      (\<lambda>req. Inl \<lparr>response = Some \<lparr>res_status = 404,
                       res_data = \<lparr>data = None, errors = None, links = None, status = None\<rparr>\<rparr>,
                    message = ascii ''Request failed with status code 404''\<rparr>)
      (\<lambda>req. Inr \<lparr>res_status = 200,
                    res_data = \<lparr>data = Some [], errors = None, links = None, status = None\<rparr>\<rparr>)
      (ascii ''missing-id''))
     = Inr \<lparr>data = None,
            errors = Some [\<lparr>error_status = 404, title = ascii ''Not Found'', detail = ascii ''Model not found''\<rparr>],
            links = None, status = Some 404\<rparr>
   \<and> map (\<lambda>r. (req_verb r, req_url r, req_body r))
       (snd (executeModel \<lparr>baseURL = ascii ''https://a.test/api/v1''\<rparr>
      \<lparr>VITE_API_HOST = ascii ''https://a.test'', VITE_WORKSPACE_ID = ascii ''1'', VITE_API_TOKEN = ascii ''t''\<rparr>
      (\<lambda>req. Inl \<lparr>response = Some \<lparr>res_status = 404,
                       res_data = \<lparr>data = None, errors = None, links = None, status = None\<rparr>\<rparr>,
                    message = ascii ''Request failed with status code 404''\<rparr>)
      (\<lambda>req. Inr \<lparr>res_status = 200,
                    res_data = \<lparr>data = Some [], errors = None, links = None, status = None\<rparr>\<rparr>)
      (ascii ''missing-id'')))
     = [(GET, ascii ''/models/missing-id'', None)]"
proof -
  let ?client = "\<lparr>baseURL = ascii ''https://a.test/api/v1''\<rparr>"
  let ?env = "\<lparr>VITE_API_HOST = ascii ''https://a.test'', VITE_WORKSPACE_ID = ascii ''1'', VITE_API_TOKEN = ascii ''t''\<rparr>"
  let ?envelope = "\<lparr>data = (None :: Model option), errors = None, links = None, status = None\<rparr>"
  let ?net_model = "\<lambda>req :: QuerySourcePayload request.
      Inl \<lparr>response = Some \<lparr>res_status = 404, res_data = ?envelope\<rparr>,
           message = ascii ''Request failed with status code 404''\<rparr>
      :: (Model ApiResponse axios_error, Model ApiResponse axios_response) promise"
  let ?net_fields = "\<lambda>req :: QuerySourcePayload request.
      Inr \<lparr>res_status = 200,
           res_data = \<lparr>data = Some ([] :: Field list), errors = None, links = None, status = None\<rparr>\<rparr>
      :: (Field list ApiResponse axios_error, Field list ApiResponse axios_response) promise"
  have h: "fst (getModelById ?client ?env ?net_model (ascii ''missing-id'')) = Inr ?envelope"
    by (simp add: getModelById_def apiFetch_eq Let_def response_interceptor_cases)
  from executeModel_short_circuit [OF h, of ?net_fields] show ?thesis
    by (simp add: ascii_append [symmetric])
qed


section \<open>Properties of the report endpoint\<close>






end
